(* ===== verification/Prelude.thy ===== *)
theory Prelude
  imports Main "HOL-Library.Word"
begin

text \<open>
  The vocabulary every component shares: machine integers of Go as words, the outcome of a
  call that may panic or block on a mutex, slices and indexing with their run-time checks,
  the \<open>encoding/binary\<close> accessors, and the generic lemmas on lists and words the
  components use.  The collection \<open>go_simps\<close> holds the equations that evaluate the
  checked operations.
\<close>

unbundle bit_operations_syntax

named_theorems go_simps \<open>equations of the checked Go primitives\<close>

type_synonym byte = "8 word"
type_synonym uint8 = "8 word"
type_synonym uint16 = "16 word"
type_synonym uint32 = "32 word"
type_synonym uint64 = "64 word"

section \<open>Outcomes of Go calls\<close>

text \<open>
  A call returns, panics (with the message of the run time or of the \<open>panic\<close> statement),
  or waits for a \<open>sync.Mutex\<close> that the same goroutine holds, which never ends.
\<close>

datatype 'a outcome = Ret 'a | Panic string | Blocks

fun andThen :: "'a outcome \<Rightarrow> ('a \<Rightarrow> 'b outcome) \<Rightarrow> 'b outcome" where
  "andThen (Ret x) f = f x"
| "andThen (Panic s) f = Panic s"
| "andThen Blocks f = Blocks"

section \<open>Slices, indexing and byte order\<close>

definition slice_bounds :: string where
  "slice_bounds = ''slice bounds out of range''"

definition index_range :: string where
  "index_range = ''index out of range''"

text \<open>\<open>b[lo:hi]\<close>: the list is the slice up to its capacity.\<close>

definition sub :: "'a list \<Rightarrow> int \<Rightarrow> int \<Rightarrow> 'a list outcome" where
  "sub b lo hi =
     (if 0 \<le> lo \<and> lo \<le> hi \<and> hi \<le> int (length b)
      then Ret (take (nat (hi - lo)) (drop (nat lo) b)) else Panic slice_bounds)"

text \<open>Storing \<open>ys\<close> through a slice of \<open>b\<close> that starts at \<open>off\<close>.\<close>

definition overwrite :: "nat \<Rightarrow> 'a list \<Rightarrow> 'a list \<Rightarrow> 'a list" where
  "overwrite off ys b = take off b @ ys @ drop (off + length ys) b"

text \<open>\<open>copy(dst, src)\<close>: the new contents of \<open>dst\<close> and the number of elements copied.\<close>

definition copy :: "'a list \<Rightarrow> 'a list \<Rightarrow> 'a list \<times> nat" where
  "copy dst src = (let n = min (length dst) (length src) in (take n src @ drop n dst, n))"

definition index :: "'a list \<Rightarrow> nat \<Rightarrow> 'a outcome" where
  "index b i = (if i < length b then Ret (b ! i) else Panic index_range)"

definition store :: "'a list \<Rightarrow> nat \<Rightarrow> 'a \<Rightarrow> 'a list outcome" where
  "store b i v = (if i < length b then Ret (b[i := v]) else Panic index_range)"

definition hi8 :: "uint16 \<Rightarrow> byte" where
  "hi8 v = ucast (drop_bit 8 v)"

definition lo8 :: "uint16 \<Rightarrow> byte" where
  "lo8 v = ucast v"

definition be16 :: "byte \<Rightarrow> byte \<Rightarrow> uint16" where
  "be16 h l = ucast l OR push_bit 8 (ucast h)"

text \<open>\<open>binary.BigEndian\<close> and \<open>binary.LittleEndian\<close> on \<open>b[off:]\<close>.\<close>

definition PutUint16 :: "byte list \<Rightarrow> nat \<Rightarrow> uint16 \<Rightarrow> byte list outcome" where
  "PutUint16 b off v =
     (if off > length b then Panic slice_bounds
      else if off + 1 < length b then Ret (b[off := hi8 v, off + 1 := lo8 v])
      else Panic index_range)"

definition Uint16 :: "byte list \<Rightarrow> nat \<Rightarrow> uint16 outcome" where
  "Uint16 b off =
     (if off > length b then Panic slice_bounds
      else if off + 1 < length b then Ret (be16 (b ! off) (b ! (off + 1)))
      else Panic index_range)"

definition PutUint16LE :: "byte list \<Rightarrow> nat \<Rightarrow> uint16 \<Rightarrow> byte list outcome" where
  "PutUint16LE b off v =
     (if off > length b then Panic slice_bounds
      else if off + 1 < length b then Ret (b[off := lo8 v, off + 1 := hi8 v])
      else Panic index_range)"

definition Uint16LE :: "byte list \<Rightarrow> nat \<Rightarrow> uint16 outcome" where
  "Uint16LE b off =
     (if off > length b then Panic slice_bounds
      else if off + 1 < length b then Ret (be16 (b ! (off + 1)) (b ! off))
      else Panic index_range)"

text \<open>The big-endian bytes of a list of registers.\<close>

definition be_bytes :: "uint16 list \<Rightarrow> byte list" where
  "be_bytes rs = concat (map (\<lambda>r. [hi8 r, lo8 r]) rs)"

text \<open>\<open>int\<close> addition of a 64-bit platform.\<close>

definition go_add :: "int \<Rightarrow> int \<Rightarrow> int" where
  "go_add a b = signed_take_bit 63 (a + b)"

section \<open>Lemmas\<close>

lemma andThen_eq_Ret:
  "andThen m f = Ret y \<longleftrightarrow> (\<exists>x. m = Ret x \<and> f x = Ret y)"
  by (cases m) auto

lemma andThen_Ret_right [simp]: "andThen m Ret = m"
  by (cases m) auto

lemma andThen_assoc [simp]:
  "andThen (andThen m f) g = andThen m (\<lambda>x. andThen (f x) g)"
  by (cases m) auto

lemma andThen_cong [fundef_cong]:
  assumes "m = m'" and "\<And>x. m' = Ret x \<Longrightarrow> f x = f' x"
  shows "andThen m f = andThen m' f'"
  using assms by (cases m') auto

lemma be16_hi8_lo8 [simp]: "be16 (hi8 v) (lo8 v) = v"
  by (rule bit_word_eqI) (auto simp: be16_def hi8_def lo8_def bit_simps)

lemma hi8_be16 [simp]: "hi8 (be16 h l) = h"
  by (rule bit_word_eqI) (auto simp: be16_def hi8_def bit_simps dest: bit_imp_le_length)

lemma lo8_be16 [simp]: "lo8 (be16 h l) = l"
  by (rule bit_word_eqI) (auto simp: be16_def lo8_def bit_simps dest: bit_imp_le_length)

lemma be16_inject [simp]: "be16 a b = be16 c d \<longleftrightarrow> a = c \<and> b = d"
  by (metis hi8_be16 lo8_be16)

lemma sub_Ret [go_simps]:
  "0 \<le> lo \<Longrightarrow> lo \<le> hi \<Longrightarrow> hi \<le> int (length b) \<Longrightarrow>
     sub b lo hi = Ret (take (nat (hi - lo)) (drop (nat lo) b))"
  by (simp add: sub_def)

lemma sub_nat:
  "lo \<le> hi \<Longrightarrow> hi \<le> length b \<Longrightarrow> sub b (int lo) (int hi) = Ret (take (hi - lo) (drop lo b))"
  by (simp add: sub_def nat_diff_distrib)

lemma sub_eq_Ret:
  "sub b lo hi = Ret s \<longleftrightarrow>
     0 \<le> lo \<and> lo \<le> hi \<and> hi \<le> int (length b) \<and> s = take (nat (hi - lo)) (drop (nat lo) b)"
  by (auto simp: sub_def)

lemma index_Ret [go_simps]: "Suc i \<le> length b \<Longrightarrow> index b i = Ret (b ! i)"
  by (simp add: index_def)

lemma store_Ret [go_simps]: "Suc i \<le> length b \<Longrightarrow> store b i v = Ret (b[i := v])"
  by (simp add: store_def)

lemma PutUint16_Ret [go_simps]:
  "off + 1 < length b \<Longrightarrow> PutUint16 b off v = Ret (b[off := hi8 v, off + 1 := lo8 v])"
  by (simp add: PutUint16_def)

lemma Uint16_Ret [go_simps]:
  "off + 1 < length b \<Longrightarrow> Uint16 b off = Ret (be16 (b ! off) (b ! (off + 1)))"
  by (simp add: Uint16_def)

lemma PutUint16LE_Ret [go_simps]:
  "off + 1 < length b \<Longrightarrow> PutUint16LE b off v = Ret (b[off := lo8 v, off + 1 := hi8 v])"
  by (simp add: PutUint16LE_def)

lemma Uint16LE_Ret [go_simps]:
  "off + 1 < length b \<Longrightarrow> Uint16LE b off = Ret (be16 (b ! (off + 1)) (b ! off))"
  by (simp add: Uint16LE_def)

lemma length_overwrite [simp]:
  "off + length ys \<le> length b \<Longrightarrow> length (overwrite off ys b) = length b"
  by (simp add: overwrite_def)

lemma take_overwrite [simp]: "off \<le> length b \<Longrightarrow> take off (overwrite off ys b) = take off b"
  by (simp add: overwrite_def)

lemma length_be_bytes [simp]: "length (be_bytes rs) = 2 * length rs"
  by (induction rs) (auto simp: be_bytes_def)

lemma be_bytes_simps [simp]:
  "be_bytes [] = []"
  "be_bytes (r # rs) = hi8 r # lo8 r # be_bytes rs"
  "be_bytes (rs @ ss) = be_bytes rs @ be_bytes ss"
  by (auto simp: be_bytes_def)

lemma be_bytes_nth:
  "i < length rs \<Longrightarrow> be_bytes rs ! (2 * i) = hi8 (rs ! i) \<and> be_bytes rs ! (2 * i + 1) = lo8 (rs ! i)"
proof (induction rs arbitrary: i)
  case Nil
  then show ?case by simp
next
  case (Cons r rs)
  then show ?case by (cases i) auto
qed

lemma hi8_lo8_eqI: "hi8 r = hi8 s \<Longrightarrow> lo8 r = lo8 s \<Longrightarrow> r = s"
  by (metis be16_hi8_lo8)

lemma be_bytes_inject: "be_bytes rs = be_bytes ss \<longleftrightarrow> rs = ss"
proof (induction rs arbitrary: ss)
  case Nil
  then show ?case by (cases ss) auto
next
  case (Cons r rs)
  then show ?case by (cases ss) (auto intro: hi8_lo8_eqI)
qed

text \<open>Additions of small indices do not wrap.\<close>

lemma go_add_small: "- (2 ^ 63) \<le> a + b \<Longrightarrow> a + b < 2 ^ 63 \<Longrightarrow> go_add a b = a + b"
  by (simp add: go_add_def signed_take_bit_int_eq_self)

text \<open>Stepping a \<open>uint16\<close> loop counter below its bound.\<close>

lemma unat_Suc_below:
  fixes i q :: "'a::len word"
  assumes "i < q"
  shows "unat (i + 1) = Suc (unat i)"
proof -
  have "i + 1 \<noteq> 0"
    using assms by (metis add.commute add_diff_cancel_left' diff_0 leD word_n1_ge)
  then show ?thesis by (simp add: unatSuc add.commute)
qed

lemma word_of_nat_below:
  fixes q :: "'a::len word"
  assumes "k < unat q"
  shows "word_of_nat k < q" and "unat (word_of_nat k :: 'a word) = k"
proof -
  have "k < 2 ^ LENGTH('a)" using assms unsigned_less [of q] by (rule order.strict_trans)
  then show *: "unat (word_of_nat k :: 'a word) = k" by (simp add: unat_of_nat)
  show "word_of_nat k < q" using assms * by (simp add: word_less_nat_alt)
qed

lemma word_of_nat_Suc: "(word_of_nat k :: 'a::len word) + 1 = word_of_nat (Suc k)"
  by simp

lemma two_le_length: "2 \<le> length xs \<Longrightarrow> \<exists>a b r. xs = a # b # r"
  by (cases xs; cases "tl xs") auto

lemma take_store2:
  "Suc (Suc n) \<le> length xs \<Longrightarrow> take (Suc (Suc n)) (xs[n := a, Suc n := b]) = take n xs @ [a, b]"
  by (simp add: take_Suc_conv_app_nth)

lemma ucast_word_of_nat:
  "n < 256 \<Longrightarrow> ucast (word_of_nat n :: byte) = (word_of_nat n :: uint16)"
  by (simp add: unsigned_of_nat take_bit_nat_eq_self)

lemma overwrite_same:
  assumes "off + n \<le> length b"
  shows "overwrite off (take n (drop off b)) b = b"
proof -
  have len: "length (take n (drop off b)) = n" using assms by simp
  have "take n (drop off b) @ drop n (drop off b) = drop off b" by (rule append_take_drop_id)
  then show ?thesis unfolding overwrite_def len by (simp add: add.commute)
qed

lemma fold_put16:
  assumes "2 * n \<le> length dst"
  shows "fold (\<lambda>k d. d[2 * k := hi8 (v k), 2 * k + 1 := lo8 (v k)]) [0..<n] dst =
    be_bytes (map v [0..<n]) @ drop (2 * n) dst"
  using assms
proof (induction n)
  case 0
  then show ?case by simp
next
  case (Suc n)
  have "2 \<le> length (drop (2 * n) dst)" using Suc.prems by simp
  then obtain a b r where r: "drop (2 * n) dst = a # b # r"
    using two_le_length by blast
  have "drop (2 * Suc n) dst = drop 2 (drop (2 * n) dst)" by (simp add: add.commute)
  also have "\<dots> = r" by (simp add: r)
  finally have "drop (2 * Suc n) dst = r" .
  with Suc r show ?case by (simp add: list_update_append)
qed

text \<open>The registers in a byte string.\<close>

definition data_regs :: "byte list \<Rightarrow> nat \<Rightarrow> uint16 list" where
  "data_regs data n = map (\<lambda>k. be16 (data ! (2 * k)) (data ! (2 * k + 1))) [0..<n]"

lemma length_data_regs [simp]: "length (data_regs data n) = n"
  by (simp add: data_regs_def)

lemma data_regs_be_bytes: "data_regs (be_bytes rs @ xs) (length rs) = rs"
  by (rule nth_equalityI)
    (auto simp: data_regs_def nth_append be_bytes_nth [unfolded One_nat_def add_Suc_right add_0_right])

lemma be_bytes_data_regs: "2 * n \<le> length data \<Longrightarrow> be_bytes (data_regs data n) = take (2 * n) data"
proof (induction n)
  case 0
  then show ?case by (simp add: data_regs_def)
next
  case (Suc n)
  then show ?case by (simp add: data_regs_def take_Suc_conv_app_nth)
qed

end
