(* ===== verification/Definitions.thy ===== *)
theory Definitions
  imports Prelude
begin

text \<open>
  \<open>src/definitions.go\<close>: function codes and exception codes, both defined types over
  \<open>uint8\<close>, with their predicates, their texts and the two bytes of an exception response;
  and the error values the three packages return, one constructor per error variable or
  \<open>errors.New\<close> and \<open>fmt.Errorf\<close> call.
\<close>

section \<open>Function codes\<close>

type_synonym FunctionCode = uint8

definition FCReadCoils :: FunctionCode where [simp]: "FCReadCoils = 0x01"
definition FCReadDiscreteInputs :: FunctionCode where [simp]: "FCReadDiscreteInputs = 0x02"
definition FCReadHoldingRegisters :: FunctionCode where [simp]: "FCReadHoldingRegisters = 0x03"
definition FCReadInputRegisters :: FunctionCode where [simp]: "FCReadInputRegisters = 0x04"
definition FCWriteSingleCoil :: FunctionCode where [simp]: "FCWriteSingleCoil = 0x05"
definition FCWriteSingleRegister :: FunctionCode where [simp]: "FCWriteSingleRegister = 0x06"
definition FCWriteMultipleRegisters :: FunctionCode where [simp]: "FCWriteMultipleRegisters = 0x10"
definition FCReadFileRecord :: FunctionCode where [simp]: "FCReadFileRecord = 0x14"
definition FCWriteFileRecord :: FunctionCode where [simp]: "FCWriteFileRecord = 0x15"
definition FCMaskWriteRegister :: FunctionCode where [simp]: "FCMaskWriteRegister = 0x16"
definition FCReadWriteMultipleRegisters :: FunctionCode where
  [simp]: "FCReadWriteMultipleRegisters = 0x17"
definition FCReadFIFOQueue :: FunctionCode where [simp]: "FCReadFIFOQueue = 0x18"
definition FCWriteMultipleCoils :: FunctionCode where [simp]: "FCWriteMultipleCoils = 0x0F"
definition FCReadExceptionStatus :: FunctionCode where [simp]: "FCReadExceptionStatus = 0x07"
definition FCDiagnostic :: FunctionCode where [simp]: "FCDiagnostic = 0x08"
definition FCGetComEventCounter :: FunctionCode where [simp]: "FCGetComEventCounter = 0x0B"
definition FCGetComEventLog :: FunctionCode where [simp]: "FCGetComEventLog = 0x0C"
definition FCReportServerID :: FunctionCode where [simp]: "FCReportServerID = 0x11"
definition FCReadDeviceIdentification :: FunctionCode where
  [simp]: "FCReadDeviceIdentification = 0x2B"

definition IsWrite :: "FunctionCode \<Rightarrow> bool" where
  "IsWrite fc \<longleftrightarrow> fc = FCWriteSingleCoil \<or> fc = FCWriteSingleRegister \<or>
     fc = FCWriteMultipleRegisters \<or> fc = FCWriteFileRecord \<or> fc = FCMaskWriteRegister"

definition IsRead :: "FunctionCode \<Rightarrow> bool" where
  "IsRead fc \<longleftrightarrow> fc = FCReadCoils \<or> fc = FCReadDiscreteInputs \<or>
     fc = FCReadHoldingRegisters \<or> fc = FCReadInputRegisters \<or>
     fc = FCReadFIFOQueue \<or> fc = FCReadFileRecord"

text \<open>\<open>strconv.Itoa\<close> of a non-negative \<open>int\<close>.\<close>

fun Itoa :: "nat \<Rightarrow> string" where
  "Itoa n = (if n < 10 then [char_of (48 + n)] else Itoa (n div 10) @ [char_of (48 + n mod 10)])"

declare Itoa.simps [simp del]

lemma unat_and_less:
  fixes x m :: "'a::len word"
  assumes "x AND m \<noteq> x"
  shows "unat (x AND m) < unat x"
proof -
  have "unat (x AND m) \<le> unat x"
    using word_and_le2 [of x m] by (simp add: word_le_nat_alt)
  moreover have "unat (x AND m) \<noteq> unat x"
    using assms by (simp add: word_unat_eq_iff)
  ultimately show ?thesis by simp
qed

function FunctionCode_String :: "FunctionCode \<Rightarrow> string" where
  "FunctionCode_String fc =
    (if fc = FCReadCoils then ''read coils''
     else if fc = FCReadDiscreteInputs then ''read discrete inputs''
     else if fc = FCReadHoldingRegisters then ''read holding registers''
     else if fc = FCReadInputRegisters then ''read input registers''
     else if fc = FCWriteSingleCoil then ''write single coil''
     else if fc = FCWriteSingleRegister then ''write single register''
     else if fc = FCWriteMultipleRegisters then ''write multiple registers''
     else if fc = FCReadFileRecord then ''read file record''
     else if fc = FCWriteFileRecord then ''write file record''
     else if fc = FCMaskWriteRegister then ''mask write register''
     else if fc = FCReadWriteMultipleRegisters then ''read/write multiple registers''
     else if fc = FCReadFIFOQueue then ''read FIFO queue''
     else if fc = FCWriteMultipleCoils then ''write multiple coils''
     else if fc = FCReadExceptionStatus then ''read exception status''
     else if fc = FCDiagnostic then ''diagnostic''
     else if fc = FCGetComEventCounter then ''get com event counter''
     else if fc = FCGetComEventLog then ''get com event log''
     else if fc = FCReportServerID then ''report server ID''
     else if fc = FCReadDeviceIdentification then ''read device identification''
     else if fc AND NOT 0x80 \<noteq> fc \<and> (IsRead (fc AND NOT 0x80) \<or> IsWrite (fc AND NOT 0x80))
       then ''exception!<'' @ FunctionCode_String (fc AND NOT 0x80) @ ''>''
     else ''unknown function code ('' @ Itoa (unat fc) @ '')'')"
  by pat_completeness auto
termination
  by (relation "measure unat") (auto intro: unat_and_less)

declare FunctionCode_String.simps [simp del]

section \<open>Exception codes\<close>

type_synonym Exception = uint8

definition ExceptionNone :: Exception where [simp]: "ExceptionNone = 0"
definition ExceptionIllegalFunction :: Exception where [simp]: "ExceptionIllegalFunction = 1"
definition ExceptionIllegalDataAddr :: Exception where [simp]: "ExceptionIllegalDataAddr = 2"
definition ExceptionIllegalDataValue :: Exception where [simp]: "ExceptionIllegalDataValue = 3"
definition ExceptionDeviceFailure :: Exception where [simp]: "ExceptionDeviceFailure = 4"
definition ExceptionAcknowledge :: Exception where [simp]: "ExceptionAcknowledge = 5"
definition ExceptionDeviceBusy :: Exception where [simp]: "ExceptionDeviceBusy = 6"
definition ExceptionNegativeAcknowledge :: Exception where
  [simp]: "ExceptionNegativeAcknowledge = 7"
definition ExceptionMemoryParityError :: Exception where [simp]: "ExceptionMemoryParityError = 8"

definition Exception_Error :: "Exception \<Rightarrow> string" where
  "Exception_Error e =
    (if e = ExceptionIllegalFunction then ''illegal function''
     else if e = ExceptionIllegalDataAddr then ''illegal data address''
     else if e = ExceptionIllegalDataValue then ''illegal data value''
     else if e = ExceptionDeviceFailure then ''device failure''
     else if e = ExceptionAcknowledge then ''acknowledge''
     else if e = ExceptionDeviceBusy then ''device busy''
     else if e = ExceptionNegativeAcknowledge then ''negative acknowledge''
     else if e = ExceptionMemoryParityError then ''memory parity error''
     else if e = ExceptionNone then ''none''
     else ''unknown modbus exception '' @ Itoa (unat e))"

text \<open>\<open>Exception.PutResponse\<close> panics where \<open>dst\<close> has fewer than two bytes.\<close>

definition Exception_PutResponse :: "Exception \<Rightarrow> byte list \<Rightarrow> FunctionCode \<Rightarrow> byte list outcome" where
  "Exception_PutResponse e dst fc =
     andThen (store dst 0 (fc OR 0x80)) (\<lambda>dst. store dst 1 e)"

section \<open>Error values\<close>

datatype goerror =
    ErrMissingPacketData
  | ErrBadFunctionCode
  | ErrShortBuffer
  | ExceptionErr Exception
  | ErrUnhandledFunctionCode string
  | ErrUnknownException Exception
  | ErrDiscreteOOB
  | ErrRegisterOOB
  | ErrCoilPacking
  | ErrResponseTooLargeTx
  | ErrDataLengthMustBeMultipleOf2
  | ErrYetToConnect
  | ErrNotYetConnected
  | ErrAlreadyConnected
  | ErrDisconnected goerror
  | CRCError "byte list"
  | ErrReadOverflow
  | ErrTimeout
  | ErrWrongNumberOfRegisters
  | ErrInvalidMBAPLength uint16
  | ErrMBAPProtocol uint16
  | ErrEncodeLength
  | ErrEncodeProtocol
  | ErrEOF
  | ErrUnexpectedEOF
  | ErrNetClosed
  | ErrForeign string

section \<open>Properties\<close>

lemma Exception_PutResponse_Ret [go_simps]:
  "2 \<le> length dst \<Longrightarrow>
     Exception_PutResponse e dst fc = Ret (dst[0 := fc OR 0x80, 1 := e])"
  by (simp add: Exception_PutResponse_def go_simps)

end
