(* ===== verification/Data_Model.thy ===== *)
theory Data_Model
  imports Definitions
begin

text \<open>
  \<open>src/peamodbus.go\<close>, lines 38 to 312 and 678 to 695: the \<open>DataModel\<close> interface, its
  memory implementation \<open>BlockedModel\<close>, the wrapper \<open>lockedDataModel\<close> and
  \<open>lockDataModel\<close>.  The dynamic type of an interface value is a constructor of
  \<open>DataModel\<close>; a model implemented outside the repository is \<open>OtherDM\<close> with its
  methods as the parameter \<open>I\<close>.  The locale \<open>data_table\<close> is the contract of one of the
  four tables, and it is interpreted for all four on the method dispatch.
\<close>

section \<open>BlockedModel\<close>

text \<open>The four arrays have 125 elements; \<open>blocked_ok\<close> states their length.\<close>

record BlockedModel =
  coils :: "uint16 list"
  discreteInputs :: "uint16 list"
  inputRegisters :: "uint16 list"
  holdingRegisters :: "uint16 list"

definition zeroBlockedModel :: BlockedModel where
  "zeroBlockedModel = \<lparr>coils = replicate 125 0, discreteInputs = replicate 125 0,
     inputRegisters = replicate 125 0, holdingRegisters = replicate 125 0\<rparr>"

definition blocked_ok :: "BlockedModel \<Rightarrow> bool" where
  "blocked_ok b \<longleftrightarrow> length (coils b) = 125 \<and> length (discreteInputs b) = 125 \<and>
     length (inputRegisters b) = 125 \<and> length (holdingRegisters b) = 125"

definition Blocked_GetHoldingRegister :: "BlockedModel \<Rightarrow> int \<Rightarrow> uint16 \<times> Exception" where
  "Blocked_GetHoldingRegister dm i =
     (if i < 0 \<or> i \<ge> 125 then (0, ExceptionIllegalDataAddr)
      else (holdingRegisters dm ! nat i, ExceptionNone))"

definition Blocked_SetHoldingRegister :: "BlockedModel \<Rightarrow> int \<Rightarrow> uint16 \<Rightarrow> BlockedModel \<times> Exception" where
  "Blocked_SetHoldingRegister dm i v =
     (if i < 0 \<or> i \<ge> 125 then (dm, ExceptionIllegalDataAddr)
      else (dm\<lparr>holdingRegisters := (holdingRegisters dm)[nat i := v]\<rparr>, ExceptionNone))"

definition Blocked_GetInputRegister :: "BlockedModel \<Rightarrow> int \<Rightarrow> uint16 \<times> Exception" where
  "Blocked_GetInputRegister dm i =
     (if i < 0 \<or> i \<ge> 125 then (0, ExceptionIllegalDataAddr)
      else (inputRegisters dm ! nat i, ExceptionNone))"

definition Blocked_SetInputRegister :: "BlockedModel \<Rightarrow> int \<Rightarrow> uint16 \<Rightarrow> BlockedModel \<times> Exception" where
  "Blocked_SetInputRegister dm i v =
     (if i < 0 \<or> i \<ge> 125 then (dm, ExceptionIllegalDataAddr)
      else (dm\<lparr>inputRegisters := (inputRegisters dm)[nat i := v]\<rparr>, ExceptionNone))"

definition Blocked_GetCoil :: "BlockedModel \<Rightarrow> int \<Rightarrow> bool \<times> Exception" where
  "Blocked_GetCoil sm i =
     (if i < 0 \<or> i \<ge> 2000 then (False, ExceptionIllegalDataAddr)
      else let idx = nat i div 16; b = nat i mod 16
           in (coils sm ! idx AND push_bit b 1 \<noteq> 0, ExceptionNone))"

definition Blocked_SetCoil :: "BlockedModel \<Rightarrow> int \<Rightarrow> bool \<Rightarrow> BlockedModel \<times> Exception" where
  "Blocked_SetCoil sm i value =
     (if i < 0 \<or> i \<ge> 2000 then (sm, ExceptionIllegalDataAddr)
      else let idx = nat i div 16; b = nat i mod 16; old = coils sm ! idx;
               new = (if value then old OR push_bit b 1 else old AND NOT (push_bit b 1))
           in (sm\<lparr>coils := (coils sm)[idx := new]\<rparr>, ExceptionNone))"

definition Blocked_GetDiscreteInput :: "BlockedModel \<Rightarrow> int \<Rightarrow> bool \<times> Exception" where
  "Blocked_GetDiscreteInput sm i =
     (if i < 0 \<or> i \<ge> 2000 then (False, ExceptionIllegalDataAddr)
      else let idx = nat i div 16; b = nat i mod 16
           in (discreteInputs sm ! idx AND push_bit b 1 \<noteq> 0, ExceptionNone))"

definition Blocked_SetDiscreteInput :: "BlockedModel \<Rightarrow> int \<Rightarrow> bool \<Rightarrow> BlockedModel \<times> Exception" where
  "Blocked_SetDiscreteInput sm i value =
     (if i < 0 \<or> i \<ge> 2000 then (sm, ExceptionIllegalDataAddr)
      else let idx = nat i div 16; b = nat i mod 16; old = discreteInputs sm ! idx;
               new = (if value then old OR push_bit b 1 else old AND NOT (push_bit b 1))
           in (sm\<lparr>discreteInputs := (discreteInputs sm)[idx := new]\<rparr>, ExceptionNone))"

section \<open>The interface and its dynamic types\<close>

text \<open>The methods of a data model implemented outside the repository.\<close>

record 's DataModelImpl =
  implGetCoil :: "'s \<Rightarrow> int \<Rightarrow> ('s \<times> bool \<times> Exception) outcome"
  implSetCoil :: "'s \<Rightarrow> int \<Rightarrow> bool \<Rightarrow> ('s \<times> Exception) outcome"
  implGetDiscreteInput :: "'s \<Rightarrow> int \<Rightarrow> ('s \<times> bool \<times> Exception) outcome"
  implSetDiscreteInput :: "'s \<Rightarrow> int \<Rightarrow> bool \<Rightarrow> ('s \<times> Exception) outcome"
  implGetInputRegister :: "'s \<Rightarrow> int \<Rightarrow> ('s \<times> uint16 \<times> Exception) outcome"
  implSetInputRegister :: "'s \<Rightarrow> int \<Rightarrow> uint16 \<Rightarrow> ('s \<times> Exception) outcome"
  implGetHoldingRegister :: "'s \<Rightarrow> int \<Rightarrow> ('s \<times> uint16 \<times> Exception) outcome"
  implSetHoldingRegister :: "'s \<Rightarrow> int \<Rightarrow> uint16 \<Rightarrow> ('s \<times> Exception) outcome"

text \<open>
  \<open>LockedDM mu dm\<close> is a \<open>*lockedDataModel\<close> with its mutex held or not.  Models nest:
  \<open>ConcurrencySafeDataModel\<close> accepts a locked model.
\<close>

datatype 's DataModel =
    BlockedDM BlockedModel
  | LockedDM bool "'s DataModel"
  | OtherDM 's

definition ConcurrencySafeDataModel :: "'s DataModel option \<Rightarrow> 's DataModel outcome" where
  "ConcurrencySafeDataModel dm =
     (case dm of None \<Rightarrow> Panic ''nil DataModel'' | Some dm \<Rightarrow> Ret (LockedDM False dm))"

text \<open>
  \<open>mu.Lock(); defer mu.Unlock()\<close> around a call on the inner model: a held mutex blocks, and
  the deferred unlock runs when the call returns.
\<close>

definition with_mutex :: "bool \<Rightarrow> ('s DataModel \<times> 'r) outcome \<Rightarrow> ('s DataModel \<times> 'r) outcome" where
  "with_mutex mu call =
     (if mu then Blocks else andThen call (\<lambda>(dm, r). Ret (LockedDM False dm, r)))"

primrec GetHoldingRegister ::
  "'s DataModelImpl \<Rightarrow> 's DataModel \<Rightarrow> int \<Rightarrow> ('s DataModel \<times> uint16 \<times> Exception) outcome" where
  "GetHoldingRegister I (BlockedDM b) i = Ret (BlockedDM b, Blocked_GetHoldingRegister b i)"
| "GetHoldingRegister I (LockedDM mu dm) i = with_mutex mu (GetHoldingRegister I dm i)"
| "GetHoldingRegister I (OtherDM s) i =
     andThen (implGetHoldingRegister I s i) (\<lambda>(s, r). Ret (OtherDM s, r))"

primrec SetHoldingRegister ::
  "'s DataModelImpl \<Rightarrow> 's DataModel \<Rightarrow> int \<Rightarrow> uint16 \<Rightarrow> ('s DataModel \<times> Exception) outcome" where
  "SetHoldingRegister I (BlockedDM b) i v =
     (case Blocked_SetHoldingRegister b i v of (b, e) \<Rightarrow> Ret (BlockedDM b, e))"
| "SetHoldingRegister I (LockedDM mu dm) i v = with_mutex mu (SetHoldingRegister I dm i v)"
| "SetHoldingRegister I (OtherDM s) i v =
     andThen (implSetHoldingRegister I s i v) (\<lambda>(s, r). Ret (OtherDM s, r))"

primrec GetInputRegister ::
  "'s DataModelImpl \<Rightarrow> 's DataModel \<Rightarrow> int \<Rightarrow> ('s DataModel \<times> uint16 \<times> Exception) outcome" where
  "GetInputRegister I (BlockedDM b) i = Ret (BlockedDM b, Blocked_GetInputRegister b i)"
| "GetInputRegister I (LockedDM mu dm) i = with_mutex mu (GetInputRegister I dm i)"
| "GetInputRegister I (OtherDM s) i =
     andThen (implGetInputRegister I s i) (\<lambda>(s, r). Ret (OtherDM s, r))"

primrec SetInputRegister ::
  "'s DataModelImpl \<Rightarrow> 's DataModel \<Rightarrow> int \<Rightarrow> uint16 \<Rightarrow> ('s DataModel \<times> Exception) outcome" where
  "SetInputRegister I (BlockedDM b) i v =
     (case Blocked_SetInputRegister b i v of (b, e) \<Rightarrow> Ret (BlockedDM b, e))"
| "SetInputRegister I (LockedDM mu dm) i v = with_mutex mu (SetInputRegister I dm i v)"
| "SetInputRegister I (OtherDM s) i v =
     andThen (implSetInputRegister I s i v) (\<lambda>(s, r). Ret (OtherDM s, r))"

primrec GetCoil ::
  "'s DataModelImpl \<Rightarrow> 's DataModel \<Rightarrow> int \<Rightarrow> ('s DataModel \<times> bool \<times> Exception) outcome" where
  "GetCoil I (BlockedDM b) i = Ret (BlockedDM b, Blocked_GetCoil b i)"
| "GetCoil I (LockedDM mu dm) i = with_mutex mu (GetCoil I dm i)"
| "GetCoil I (OtherDM s) i = andThen (implGetCoil I s i) (\<lambda>(s, r). Ret (OtherDM s, r))"

primrec SetCoil ::
  "'s DataModelImpl \<Rightarrow> 's DataModel \<Rightarrow> int \<Rightarrow> bool \<Rightarrow> ('s DataModel \<times> Exception) outcome" where
  "SetCoil I (BlockedDM b) i v = (case Blocked_SetCoil b i v of (b, e) \<Rightarrow> Ret (BlockedDM b, e))"
| "SetCoil I (LockedDM mu dm) i v = with_mutex mu (SetCoil I dm i v)"
| "SetCoil I (OtherDM s) i v = andThen (implSetCoil I s i v) (\<lambda>(s, r). Ret (OtherDM s, r))"

primrec GetDiscreteInput ::
  "'s DataModelImpl \<Rightarrow> 's DataModel \<Rightarrow> int \<Rightarrow> ('s DataModel \<times> bool \<times> Exception) outcome" where
  "GetDiscreteInput I (BlockedDM b) i = Ret (BlockedDM b, Blocked_GetDiscreteInput b i)"
| "GetDiscreteInput I (LockedDM mu dm) i = with_mutex mu (GetDiscreteInput I dm i)"
| "GetDiscreteInput I (OtherDM s) i =
     andThen (implGetDiscreteInput I s i) (\<lambda>(s, r). Ret (OtherDM s, r))"

primrec SetDiscreteInput ::
  "'s DataModelImpl \<Rightarrow> 's DataModel \<Rightarrow> int \<Rightarrow> bool \<Rightarrow> ('s DataModel \<times> Exception) outcome" where
  "SetDiscreteInput I (BlockedDM b) i v =
     (case Blocked_SetDiscreteInput b i v of (b, e) \<Rightarrow> Ret (BlockedDM b, e))"
| "SetDiscreteInput I (LockedDM mu dm) i v = with_mutex mu (SetDiscreteInput I dm i v)"
| "SetDiscreteInput I (OtherDM s) i v =
     andThen (implSetDiscreteInput I s i v) (\<lambda>(s, r). Ret (OtherDM s, r))"

text \<open>
  \<open>lockDataModel\<close> returns the model to work on and the unlock function.  The caller
  changes the returned model in place; in the state-passing model the unlock function takes
  its new value and gives the value of the whole data model back.
\<close>

fun lockDataModel :: "'s DataModel \<Rightarrow> ('s DataModel \<times> ('s DataModel \<Rightarrow> 's DataModel)) outcome" where
  "lockDataModel (LockedDM mu dm) = (if mu then Blocks else Ret (dm, LockedDM False))"
| "lockDataModel dm = Ret (dm, id)"

section \<open>The abstract data bank\<close>

text \<open>
  The four tables of the Modbus data model as functions of the address, and their bounds.
  \<open>dm_ok\<close> are the models of the repository with every mutex free: the memory model under
  any number of locks.
\<close>

fun inner :: "'s DataModel \<Rightarrow> BlockedModel" where
  "inner (BlockedDM b) = b"
| "inner (LockedDM mu dm) = inner dm"
| "inner (OtherDM s) = zeroBlockedModel"

fun dm_ok :: "'s DataModel \<Rightarrow> bool" where
  "dm_ok (BlockedDM b) = blocked_ok b"
| "dm_ok (LockedDM mu dm) = (\<not> mu \<and> dm_ok dm)"
| "dm_ok (OtherDM s) = False"

definition holding :: "'s DataModel \<Rightarrow> int \<Rightarrow> uint16" where
  "holding dm i = (if 0 \<le> i \<and> i < 125 then holdingRegisters (inner dm) ! nat i else 0)"

definition inputs :: "'s DataModel \<Rightarrow> int \<Rightarrow> uint16" where
  "inputs dm i = (if 0 \<le> i \<and> i < 125 then inputRegisters (inner dm) ! nat i else 0)"

definition coil :: "'s DataModel \<Rightarrow> int \<Rightarrow> bool" where
  "coil dm i \<longleftrightarrow> 0 \<le> i \<and> i < 2000 \<and> bit (coils (inner dm) ! (nat i div 16)) (nat i mod 16)"

definition discrete :: "'s DataModel \<Rightarrow> int \<Rightarrow> bool" where
  "discrete dm i \<longleftrightarrow>
     0 \<le> i \<and> i < 2000 \<and> bit (discreteInputs (inner dm) ! (nat i div 16)) (nat i mod 16)"

text \<open>The contents of a model with its memory model replaced, under the same locks.\<close>

fun with_inner :: "'s DataModel \<Rightarrow> BlockedModel \<Rightarrow> 's DataModel" where
  "with_inner (BlockedDM b) c = BlockedDM c"
| "with_inner (LockedDM mu dm) c = LockedDM mu (with_inner dm c)"
| "with_inner (OtherDM s) c = OtherDM s"

text \<open>The specification of the data bank: four functions of the address.\<close>

record Bank =
  bCoils :: "int \<Rightarrow> bool"
  bDiscrete :: "int \<Rightarrow> bool"
  bInputs :: "int \<Rightarrow> uint16"
  bHolding :: "int \<Rightarrow> uint16"

definition bank_of :: "'s DataModel \<Rightarrow> Bank" where
  "bank_of dm = \<lparr>bCoils = coil dm, bDiscrete = discrete dm, bInputs = inputs dm,
     bHolding = holding dm\<rparr>"

text \<open>Storing consecutive values in a table.\<close>

definition upd_range :: "(int \<Rightarrow> 'v) \<Rightarrow> int \<Rightarrow> 'v list \<Rightarrow> int \<Rightarrow> 'v" where
  "upd_range f a vs = (\<lambda>i. if a \<le> i \<and> i < a + int (length vs) then vs ! nat (i - a) else f i)"

section \<open>The contract of a table\<close>

locale data_table =
  fixes getv :: "'m \<Rightarrow> int \<Rightarrow> ('m \<times> 'v \<times> Exception) outcome"
    and setv :: "'m \<Rightarrow> int \<Rightarrow> 'v \<Rightarrow> ('m \<times> Exception) outcome"
    and ok :: "'m \<Rightarrow> bool"
    and val :: "'m \<Rightarrow> int \<Rightarrow> 'v"
    and rest :: "'m \<Rightarrow> 'r"
    and bound :: int
    and zero :: 'v
  assumes get_in: "ok m \<Longrightarrow> 0 \<le> i \<Longrightarrow> i < bound \<Longrightarrow> getv m i = Ret (m, val m i, ExceptionNone)"
    and get_out: "ok m \<Longrightarrow> i < 0 \<or> bound \<le> i \<Longrightarrow> getv m i = Ret (m, zero, ExceptionIllegalDataAddr)"
    and set_in: "ok m \<Longrightarrow> 0 \<le> i \<Longrightarrow> i < bound \<Longrightarrow>
      \<exists>m'. setv m i v = Ret (m', ExceptionNone) \<and> ok m' \<and> val m' = (val m)(i := v) \<and> rest m' = rest m"
    and set_out: "ok m \<Longrightarrow> i < 0 \<or> bound \<le> i \<Longrightarrow> setv m i v = Ret (m, ExceptionIllegalDataAddr)"
begin

lemma get_eq:
  "ok m \<Longrightarrow> getv m i =
     Ret (m, if 0 \<le> i \<and> i < bound then (val m i, ExceptionNone) else (zero, ExceptionIllegalDataAddr))"
  using get_in [of m i] get_out [of m i] by (auto simp: not_le not_less)

lemma set_eq:
  "ok m \<Longrightarrow> \<exists>m'. setv m i v = Ret (m', if 0 \<le> i \<and> i < bound then ExceptionNone else ExceptionIllegalDataAddr) \<and>
     ok m' \<and> rest m' = rest m \<and> val m' = (if 0 \<le> i \<and> i < bound then (val m)(i := v) else val m)"
  using set_in [of m i v] set_out [of m i v] by (cases "0 \<le> i \<and> i < bound") (auto simp: not_le not_less)

lemma get_total: "ok m \<Longrightarrow> \<exists>v e. getv m i = Ret (m, v, e)"
  using get_in [of m i] get_out [of m i] by (cases "0 \<le> i \<and> i < bound") auto

lemma set_total: "ok m \<Longrightarrow> \<exists>m' e. setv m i v = Ret (m', e) \<and> ok m' \<and> rest m' = rest m"
  using set_in [of m i v] set_out [of m i v] by (cases "0 \<le> i \<and> i < bound") auto

lemma get_after_set:
  assumes "ok m" and "0 \<le> i" and "i < bound" and "setv m i v = Ret (m', e)"
  shows "getv m' i = Ret (m', v, ExceptionNone)"
    and "0 \<le> j \<Longrightarrow> j < bound \<Longrightarrow> j \<noteq> i \<Longrightarrow> getv m' j = Ret (m', val m j, ExceptionNone)"
proof -
  from set_in [OF assms(1-3), of v] assms(4)
  have "ok m'" and "val m' = (val m)(i := v)" by auto
  then show "getv m' i = Ret (m', v, ExceptionNone)"
    and "0 \<le> j \<Longrightarrow> j < bound \<Longrightarrow> j \<noteq> i \<Longrightarrow> getv m' j = Ret (m', val m j, ExceptionNone)"
    using assms get_in [of m'] by auto
qed

end

section \<open>Lemmas\<close>

lemma with_mutex_simps [simp]:
  "with_mutex False (Ret (dm, r)) = Ret (LockedDM False dm, r)"
  "with_mutex True call = Blocks"
  by (auto simp: with_mutex_def)

lemma blocked_ok_zero [simp]: "blocked_ok zeroBlockedModel"
  by (simp add: blocked_ok_def zeroBlockedModel_def)

lemma blocked_ok_inner [simp]: "dm_ok dm \<Longrightarrow> blocked_ok (inner dm)"
  by (induction dm) auto

lemma inner_with_inner [simp]: "dm_ok dm \<Longrightarrow> inner (with_inner dm b) = b"
  by (induction dm) auto

lemma dm_ok_with_inner [simp]: "dm_ok dm \<Longrightarrow> dm_ok (with_inner dm b) = blocked_ok b"
  by (induction dm) auto

lemma with_inner_same [simp]: "with_inner dm (inner dm) = dm"
  by (induction dm) auto

lemma upd_range_Nil [simp]: "upd_range f a [] = f"
  by (rule ext) (auto simp: upd_range_def)

lemma upd_range_nth [simp]: "k < length vs \<Longrightarrow> upd_range f a vs (a + int k) = vs ! k"
  by (simp add: upd_range_def)

lemma upd_range_Cons: "upd_range f a (v # vs) = upd_range (f(a := v)) (a + 1) vs"
proof
  fix i
  show "upd_range f a (v # vs) i = upd_range (f(a := v)) (a + 1) vs i"
  proof (cases "a < i \<and> i < a + 1 + int (length vs)")
    case True
    then have "nat (i - a) = Suc (nat (i - (a + 1)))" by arith
    with True show ?thesis by (auto simp: upd_range_def)
  next
    case False
    then show ?thesis by (auto simp: upd_range_def)
  qed
qed

lemma take_Suc_upd:
  assumes "k < length vs"
  shows "upd_range f a (take (Suc k) vs) = (upd_range f a (take k vs))(a + int k := vs ! k)"
  using assms
proof (induction vs arbitrary: k f a)
  case Nil
  then show ?case by simp
next
  case (Cons v vs)
  show ?case
  proof (cases k)
    case 0
    then show ?thesis by (simp add: upd_range_Cons)
  next
    case (Suc j)
    then have "upd_range (f(a := v)) (a + 1) (take (Suc j) vs) =
        (upd_range (f(a := v)) (a + 1) (take j vs))(a + 1 + int j := vs ! j)"
      using Cons by auto
    with Suc show ?thesis by (simp add: upd_range_Cons ac_simps)
  qed
qed

text \<open>Dispatch on a model of the repository is the call on its memory model.\<close>

lemma dispatch_get:
  assumes "dm_ok dm"
  shows "GetHoldingRegister I dm i = Ret (dm, Blocked_GetHoldingRegister (inner dm) i)"
    and "GetInputRegister I dm i = Ret (dm, Blocked_GetInputRegister (inner dm) i)"
    and "GetCoil I dm i = Ret (dm, Blocked_GetCoil (inner dm) i)"
    and "GetDiscreteInput I dm i = Ret (dm, Blocked_GetDiscreteInput (inner dm) i)"
  using assms by (induction dm) auto

lemma dispatch_set:
  assumes "dm_ok dm"
  shows "SetHoldingRegister I dm i v =
      (case Blocked_SetHoldingRegister (inner dm) i v of (b, e) \<Rightarrow> Ret (with_inner dm b, e))"
    and "SetInputRegister I dm i v =
      (case Blocked_SetInputRegister (inner dm) i v of (b, e) \<Rightarrow> Ret (with_inner dm b, e))"
    and "SetCoil I dm i c =
      (case Blocked_SetCoil (inner dm) i c of (b, e) \<Rightarrow> Ret (with_inner dm b, e))"
    and "SetDiscreteInput I dm i c =
      (case Blocked_SetDiscreteInput (inner dm) i c of (b, e) \<Rightarrow> Ret (with_inner dm b, e))"
  using assms by (induction dm) (auto split: prod.splits)

lemma blocked_ok_updates [simp]:
  assumes "blocked_ok b"
  shows "blocked_ok (b\<lparr>holdingRegisters := (holdingRegisters b)[k := v]\<rparr>)"
    and "blocked_ok (b\<lparr>inputRegisters := (inputRegisters b)[k := v]\<rparr>)"
    and "blocked_ok (b\<lparr>coils := (coils b)[k := v]\<rparr>)"
    and "blocked_ok (b\<lparr>discreteInputs := (discreteInputs b)[k := v]\<rparr>)"
  using assms by (auto simp: blocked_ok_def)

lemma and_single_bit:
  fixes w :: "'a::len word"
  shows "w AND 2 ^ n = 0 \<longleftrightarrow> \<not> bit w n"
  by (simp add: bit_iff_and_push_bit_not_eq_0)

lemma bit_put_bit:
  fixes w :: "'a::len word"
  assumes "k < LENGTH('a)"
  shows "bit (if c then w OR push_bit b 1 else w AND NOT (push_bit b 1)) k =
    (if k = b then c else bit w k)"
  using assms by (auto simp: bit_simps)

text \<open>The effect of each setter of the memory model on the four tables.\<close>

lemma in_block: "0 \<le> i \<Longrightarrow> i < 2000 \<Longrightarrow> nat i div 16 < 125"
  by arith

lemma same_block:
  "0 \<le> i \<Longrightarrow> 0 \<le> j \<Longrightarrow> nat i div 16 = nat j div 16 \<Longrightarrow> nat i mod 16 = nat j mod 16 \<Longrightarrow> i = j"
  by (metis div_mult_mod_eq eq_nat_nat_iff)

lemma tables_set_holding:
  fixes v :: uint16
  assumes "dm_ok dm" and "0 \<le> i" and "i < 125"
  defines "dm' \<equiv> with_inner dm ((inner dm)\<lparr>holdingRegisters := (holdingRegisters (inner dm))[nat i := v]\<rparr>)"
  shows "dm_ok dm'" and "holding dm' = (holding dm)(i := v)" and "inputs dm' = inputs dm"
    and "coil dm' = coil dm" and "discrete dm' = discrete dm"
  using assms blocked_ok_inner [OF assms(1)]
  by (auto simp: fun_eq_iff holding_def inputs_def coil_def discrete_def blocked_ok_def
      nth_list_update eq_nat_nat_iff)

lemma tables_set_inputs:
  fixes v :: uint16
  assumes "dm_ok dm" and "0 \<le> i" and "i < 125"
  defines "dm' \<equiv> with_inner dm ((inner dm)\<lparr>inputRegisters := (inputRegisters (inner dm))[nat i := v]\<rparr>)"
  shows "dm_ok dm'" and "inputs dm' = (inputs dm)(i := v)" and "holding dm' = holding dm"
    and "coil dm' = coil dm" and "discrete dm' = discrete dm"
  using assms blocked_ok_inner [OF assms(1)]
  by (auto simp: fun_eq_iff holding_def inputs_def coil_def discrete_def blocked_ok_def
      nth_list_update eq_nat_nat_iff)

lemma bit_block_update:
  fixes ws :: "uint16 list"
  assumes "length ws = 125" and "0 \<le> i" and "i < 2000" and "0 \<le> j" and "j < 2000"
  shows "bit (ws[nat i div 16 := (if c then ws ! (nat i div 16) OR push_bit (nat i mod 16) 1
      else ws ! (nat i div 16) AND NOT (push_bit (nat i mod 16) 1))] ! (nat j div 16)) (nat j mod 16)
    = (if j = i then c else bit (ws ! (nat j div 16)) (nat j mod 16))"
  using assms in_block same_block [of i j]
  by (cases "nat i div 16 = nat j div 16") (auto simp: bit_put_bit)

lemma tables_set_coil:
  fixes c :: bool
  assumes "dm_ok dm" and "0 \<le> i" and "i < 2000"
  defines "dm' \<equiv> with_inner dm ((inner dm)\<lparr>coils := (coils (inner dm))[nat i div 16 :=
      (if c then coils (inner dm) ! (nat i div 16) OR push_bit (nat i mod 16) 1
       else coils (inner dm) ! (nat i div 16) AND NOT (push_bit (nat i mod 16) 1))]\<rparr>)"
  shows "dm_ok dm'" and "coil dm' = (coil dm)(i := c)" and "holding dm' = holding dm"
    and "inputs dm' = inputs dm" and "discrete dm' = discrete dm"
proof -
  have len: "length (coils (inner dm)) = 125"
    using blocked_ok_inner [OF assms(1)] by (simp add: blocked_ok_def)
  show "coil dm' = (coil dm)(i := c)"
  proof
    fix j
    show "coil dm' j = ((coil dm)(i := c)) j"
      using assms bit_block_update [OF len assms(2,3), of j c]
      by (cases "0 \<le> j \<and> j < 2000") (auto simp: coil_def)
  qed
  show "dm_ok dm'" "holding dm' = holding dm" "inputs dm' = inputs dm" "discrete dm' = discrete dm"
    using assms blocked_ok_inner [OF assms(1)]
    by (auto simp: fun_eq_iff holding_def inputs_def discrete_def blocked_ok_def)
qed

lemma tables_set_discrete:
  fixes c :: bool
  assumes "dm_ok dm" and "0 \<le> i" and "i < 2000"
  defines "dm' \<equiv> with_inner dm ((inner dm)\<lparr>discreteInputs := (discreteInputs (inner dm))[nat i div 16 :=
      (if c then discreteInputs (inner dm) ! (nat i div 16) OR push_bit (nat i mod 16) 1
       else discreteInputs (inner dm) ! (nat i div 16) AND NOT (push_bit (nat i mod 16) 1))]\<rparr>)"
  shows "dm_ok dm'" and "discrete dm' = (discrete dm)(i := c)" and "holding dm' = holding dm"
    and "inputs dm' = inputs dm" and "coil dm' = coil dm"
proof -
  have len: "length (discreteInputs (inner dm)) = 125"
    using blocked_ok_inner [OF assms(1)] by (simp add: blocked_ok_def)
  show "discrete dm' = (discrete dm)(i := c)"
  proof
    fix j
    show "discrete dm' j = ((discrete dm)(i := c)) j"
      using assms bit_block_update [OF len assms(2,3), of j c]
      by (cases "0 \<le> j \<and> j < 2000") (auto simp: discrete_def)
  qed
  show "dm_ok dm'" "holding dm' = holding dm" "inputs dm' = inputs dm" "coil dm' = coil dm"
    using assms blocked_ok_inner [OF assms(1)]
    by (auto simp: fun_eq_iff holding_def inputs_def coil_def blocked_ok_def)
qed

section \<open>The locked model\<close>

text \<open>The model under the outer lock, and the data model rebuilt by the unlock function.\<close>

fun unlocked :: "'s DataModel \<Rightarrow> 's DataModel" where
  "unlocked (LockedDM mu dm) = dm"
| "unlocked dm = dm"

fun relock :: "'s DataModel \<Rightarrow> 's DataModel \<Rightarrow> 's DataModel" where
  "relock (LockedDM mu dm) = LockedDM False"
| "relock dm = id"

lemma lockDataModel_ok [simp]: "dm_ok dm \<Longrightarrow> lockDataModel dm = Ret (unlocked dm, relock dm)"
  by (cases dm) auto

lemma unlocked_simps [simp]:
  "dm_ok dm \<Longrightarrow> dm_ok (unlocked dm)" "inner (unlocked dm) = inner dm"
  "dm_ok dm \<Longrightarrow> relock dm (unlocked dm) = dm"
  "dm_ok (relock dm m) = dm_ok m" "inner (relock dm m) = inner m"
  by (cases dm; simp)+

lemma tables_cong:
  assumes "inner a = inner b"
  shows "holding a = holding b" and "inputs a = inputs b" and "coil a = coil b"
    and "discrete a = discrete b"
  using assms by (auto simp: fun_eq_iff holding_def inputs_def coil_def discrete_def)

section \<open>The four tables meet the contract\<close>

interpretation holding: data_table "GetHoldingRegister I" "SetHoldingRegister I" dm_ok holding
    "\<lambda>dm. (inputs dm, coil dm, discrete dm)" 125 0
  for I
  by unfold_locales
    (auto simp: dispatch_get dispatch_set Blocked_GetHoldingRegister_def
      Blocked_SetHoldingRegister_def holding_def [of _ i for i] tables_set_holding)

interpretation inputs: data_table "GetInputRegister I" "SetInputRegister I" dm_ok inputs
    "\<lambda>dm. (holding dm, coil dm, discrete dm)" 125 0
  for I
  by unfold_locales
    (auto simp: dispatch_get dispatch_set Blocked_GetInputRegister_def
      Blocked_SetInputRegister_def inputs_def [of _ i for i] tables_set_inputs)

interpretation coil: data_table "GetCoil I" "SetCoil I" dm_ok coil
    "\<lambda>dm. (holding dm, inputs dm, discrete dm)" 2000 False
  for I
  by unfold_locales
    (auto simp: dispatch_get dispatch_set Blocked_GetCoil_def Blocked_SetCoil_def Let_def
      and_single_bit coil_def [of _ i for i] tables_set_coil)

interpretation discrete: data_table "GetDiscreteInput I" "SetDiscreteInput I" dm_ok discrete
    "\<lambda>dm. (holding dm, inputs dm, coil dm)" 2000 False
  for I
  by unfold_locales
    (auto simp: dispatch_get dispatch_set Blocked_GetDiscreteInput_def
      Blocked_SetDiscreteInput_def Let_def and_single_bit discrete_def [of _ i for i]
      tables_set_discrete)

section \<open>A foreign model for examples\<close>

text \<open>A model without tables: every method answers with an exception.\<close>

definition noTables :: "unit DataModelImpl" where
  "noTables = \<lparr>implGetCoil = \<lambda>s i. Ret (s, False, ExceptionIllegalFunction),
     implSetCoil = \<lambda>s i v. Ret (s, ExceptionIllegalFunction),
     implGetDiscreteInput = \<lambda>s i. Ret (s, False, ExceptionIllegalFunction),
     implSetDiscreteInput = \<lambda>s i v. Ret (s, ExceptionIllegalFunction),
     implGetInputRegister = \<lambda>s i. Ret (s, 0, ExceptionIllegalFunction),
     implSetInputRegister = \<lambda>s i v. Ret (s, ExceptionIllegalFunction),
     implGetHoldingRegister = \<lambda>s i. Ret (s, 0, ExceptionIllegalFunction),
     implSetHoldingRegister = \<lambda>s i v. Ret (s, ExceptionIllegalFunction)\<rparr>"

abbreviation freshModel :: "unit DataModel" where
  "freshModel \<equiv> LockedDM False (BlockedDM zeroBlockedModel)"

section \<open>Properties\<close>

text \<open>
  C14. Every getter of a model of the repository, however many locks it is under, answers what the
  abstract data bank holds, reports an illegal address outside the table, changes nothing and never
  blocks or panics.
\<close>

theorem getters_refine_bank:
  assumes "dm_ok dm"
  shows "GetHoldingRegister I dm i =
      Ret (dm, if 0 \<le> i \<and> i < 125 then (bHolding (bank_of dm) i, ExceptionNone) else (0, ExceptionIllegalDataAddr)) \<and>
    GetInputRegister I dm i =
      Ret (dm, if 0 \<le> i \<and> i < 125 then (bInputs (bank_of dm) i, ExceptionNone) else (0, ExceptionIllegalDataAddr)) \<and>
    GetCoil I dm i =
      Ret (dm, if 0 \<le> i \<and> i < 2000 then (bCoils (bank_of dm) i, ExceptionNone) else (False, ExceptionIllegalDataAddr)) \<and>
    GetDiscreteInput I dm i =
      Ret (dm, if 0 \<le> i \<and> i < 2000 then (bDiscrete (bank_of dm) i, ExceptionNone) else (False, ExceptionIllegalDataAddr))"
  by (simp add: bank_of_def holding.get_eq [OF assms] inputs.get_eq [OF assms] coil.get_eq [OF assms]
      discrete.get_eq [OF assms])

theorem getters_refine_bank_witness:
  "GetHoldingRegister noTables freshModel 125 = Ret (freshModel, 0, ExceptionIllegalDataAddr) \<and>
   GetCoil noTables freshModel 1999 = Ret (freshModel, bCoils (bank_of freshModel) 1999, ExceptionNone)"
  using getters_refine_bank [of freshModel noTables 125] getters_refine_bank [of freshModel noTables 1999] by simp

lemma set_holding_bank:
  assumes "dm_ok dm"
  shows "\<exists>dm'. SetHoldingRegister I dm i v =
        Ret (dm', if 0 \<le> i \<and> i < 125 then ExceptionNone else ExceptionIllegalDataAddr) \<and> dm_ok dm' \<and>
      bank_of dm' = (if 0 \<le> i \<and> i < 125 then (bank_of dm)\<lparr>bHolding := (bHolding (bank_of dm))(i := v)\<rparr> else bank_of dm)"
proof -
  obtain m where "SetHoldingRegister I dm i v = Ret (m, if 0 \<le> i \<and> i < 125 then ExceptionNone else ExceptionIllegalDataAddr)"
    and "dm_ok m" and "(inputs m, coil m, discrete m) = (inputs dm, coil dm, discrete dm)"
    and "holding m = (if 0 \<le> i \<and> i < 125 then (holding dm)(i := v) else holding dm)"
    using holding.set_eq [OF assms, of I i v] by blast
  then show ?thesis by (intro exI [of _ m]) (simp add: bank_of_def)
qed

lemma set_inputs_bank:
  assumes "dm_ok dm"
  shows "\<exists>dm'. SetInputRegister I dm i v =
        Ret (dm', if 0 \<le> i \<and> i < 125 then ExceptionNone else ExceptionIllegalDataAddr) \<and> dm_ok dm' \<and>
      bank_of dm' = (if 0 \<le> i \<and> i < 125 then (bank_of dm)\<lparr>bInputs := (bInputs (bank_of dm))(i := v)\<rparr> else bank_of dm)"
proof -
  obtain m where "SetInputRegister I dm i v = Ret (m, if 0 \<le> i \<and> i < 125 then ExceptionNone else ExceptionIllegalDataAddr)"
    and "dm_ok m" and "(holding m, coil m, discrete m) = (holding dm, coil dm, discrete dm)"
    and "inputs m = (if 0 \<le> i \<and> i < 125 then (inputs dm)(i := v) else inputs dm)"
    using inputs.set_eq [OF assms, of I i v] by blast
  then show ?thesis by (intro exI [of _ m]) (simp add: bank_of_def)
qed

lemma set_coil_bank:
  assumes "dm_ok dm"
  shows "\<exists>dm'. SetCoil I dm i c =
        Ret (dm', if 0 \<le> i \<and> i < 2000 then ExceptionNone else ExceptionIllegalDataAddr) \<and> dm_ok dm' \<and>
      bank_of dm' = (if 0 \<le> i \<and> i < 2000 then (bank_of dm)\<lparr>bCoils := (bCoils (bank_of dm))(i := c)\<rparr> else bank_of dm)"
proof -
  obtain m where "SetCoil I dm i c = Ret (m, if 0 \<le> i \<and> i < 2000 then ExceptionNone else ExceptionIllegalDataAddr)"
    and "dm_ok m" and "(holding m, inputs m, discrete m) = (holding dm, inputs dm, discrete dm)"
    and "coil m = (if 0 \<le> i \<and> i < 2000 then (coil dm)(i := c) else coil dm)"
    using coil.set_eq [OF assms, of I i c] by blast
  then show ?thesis by (intro exI [of _ m]) (simp add: bank_of_def)
qed

lemma set_discrete_bank:
  assumes "dm_ok dm"
  shows "\<exists>dm'. SetDiscreteInput I dm i c =
        Ret (dm', if 0 \<le> i \<and> i < 2000 then ExceptionNone else ExceptionIllegalDataAddr) \<and> dm_ok dm' \<and>
      bank_of dm' = (if 0 \<le> i \<and> i < 2000 then (bank_of dm)\<lparr>bDiscrete := (bDiscrete (bank_of dm))(i := c)\<rparr> else bank_of dm)"
proof -
  obtain m where "SetDiscreteInput I dm i c = Ret (m, if 0 \<le> i \<and> i < 2000 then ExceptionNone else ExceptionIllegalDataAddr)"
    and "dm_ok m" and "(holding m, inputs m, coil m) = (holding dm, inputs dm, coil dm)"
    and "discrete m = (if 0 \<le> i \<and> i < 2000 then (discrete dm)(i := c) else discrete dm)"
    using discrete.set_eq [OF assms, of I i c] by blast
  then show ?thesis by (intro exI [of _ m]) (simp add: bank_of_def)
qed

text \<open>
  C8. Every setter stores at its address in its own table of the abstract data bank and changes nothing
  else, or refuses an address outside the table without a change; it keeps the invariant of the model,
  and never blocks or panics.
\<close>

theorem setters_refine_bank:
  assumes "dm_ok dm"
  shows "(\<exists>dm'. SetHoldingRegister I dm i v =
        Ret (dm', if 0 \<le> i \<and> i < 125 then ExceptionNone else ExceptionIllegalDataAddr) \<and> dm_ok dm' \<and>
      bank_of dm' = (if 0 \<le> i \<and> i < 125 then (bank_of dm)\<lparr>bHolding := (bHolding (bank_of dm))(i := v)\<rparr> else bank_of dm)) \<and>
    (\<exists>dm'. SetInputRegister I dm i v =
        Ret (dm', if 0 \<le> i \<and> i < 125 then ExceptionNone else ExceptionIllegalDataAddr) \<and> dm_ok dm' \<and>
      bank_of dm' = (if 0 \<le> i \<and> i < 125 then (bank_of dm)\<lparr>bInputs := (bInputs (bank_of dm))(i := v)\<rparr> else bank_of dm)) \<and>
    (\<exists>dm'. SetCoil I dm i c =
        Ret (dm', if 0 \<le> i \<and> i < 2000 then ExceptionNone else ExceptionIllegalDataAddr) \<and> dm_ok dm' \<and>
      bank_of dm' = (if 0 \<le> i \<and> i < 2000 then (bank_of dm)\<lparr>bCoils := (bCoils (bank_of dm))(i := c)\<rparr> else bank_of dm)) \<and>
    (\<exists>dm'. SetDiscreteInput I dm i c =
        Ret (dm', if 0 \<le> i \<and> i < 2000 then ExceptionNone else ExceptionIllegalDataAddr) \<and> dm_ok dm' \<and>
      bank_of dm' =
        (if 0 \<le> i \<and> i < 2000 then (bank_of dm)\<lparr>bDiscrete := (bDiscrete (bank_of dm))(i := c)\<rparr> else bank_of dm))"
  by (intro conjI set_holding_bank set_inputs_bank set_coil_bank set_discrete_bank assms)

theorem setters_refine_bank_witness:
  "\<exists>dm'. SetCoil noTables freshModel 17 True = Ret (dm', ExceptionNone) \<and> dm_ok dm' \<and>
    bank_of dm' = (bank_of freshModel)\<lparr>bCoils := (bCoils (bank_of freshModel))(17 := True)\<rparr>"
  using setters_refine_bank [of freshModel noTables 17 0 True] by auto

end
