(* ===== verification/Interpreter.thy ===== *)
theory Interpreter
  imports Data_Model
begin

text \<open>
  \<open>DataInterpreter\<close> of \<open>src/peamodbus.go\<close>, lines 314 to 676: integers, floating-point numbers,
  bytes and 16-bit slices read from and written to consecutive registers.  The methods of a data
  model passed as function values (\<open>regGet\<close>, \<open>regSet\<close>, \<open>get16\<close>, \<open>set16\<close>) are functions on the
  state of the model; they come from a non-nil model and are never nil.  A loop over indices runs
  through the list of the indices.  The lemmas are proved once for a table of 16-bit registers, in
  the locale \<open>register_table\<close>, and hold for the holding and the input registers.
\<close>

section \<open>Floating-point numbers\<close>

text \<open>
  A \<open>float32\<close> or \<open>float64\<close> is its IEEE 754 bit pattern; \<open>math.Float32bits\<close> and its inverse
  are the selector and the constructor.
\<close>

datatype float32 = Float32frombits (Float32bits: uint32)

datatype float64 = Float64frombits (Float64bits: uint64)

text \<open>The index of the highest set bit of a positive number.\<close>

fun high_bit :: "nat \<Rightarrow> nat" where
  "high_bit n = (if n < 2 then 0 else Suc (high_bit (n div 2)))"

declare high_bit.simps [simp del]

text \<open>The conversion \<open>float64(f)\<close>: exact; a NaN becomes quiet.\<close>

definition widen :: "float32 \<Rightarrow> float64" where
  "widen f =
    (let b = unat (Float32bits f); s = b div 2 ^ 31; e = b div 2 ^ 23 mod 2 ^ 8; m = b mod 2 ^ 23;
         r = (if e = 255 then 2047 * 2 ^ 52 + (if m = 0 then 0 else (m mod 2 ^ 22) * 2 ^ 29 + 2 ^ 51)
              else if e = 0 then
                if m = 0 then 0
                else let k = high_bit m in (k + 874) * 2 ^ 52 + (m - 2 ^ k) * 2 ^ (52 - k)
              else (e + 896) * 2 ^ 52 + m * 2 ^ 29)
     in Float64frombits (word_of_nat (s * 2 ^ 63 + r)))"

text \<open>The conversion \<open>float32(f)\<close>: to nearest, ties to even, to infinity beyond the range.\<close>

definition narrow :: "float64 \<Rightarrow> float32" where
  "narrow f =
    (let b = unat (Float64bits f); s = b div 2 ^ 63; e = b div 2 ^ 52 mod 2 ^ 11; m = b mod 2 ^ 52;
         r = (if e = 2047 then 255 * 2 ^ 23 + (if m = 0 then 0 else 2 ^ 22 + m div 2 ^ 29 mod 2 ^ 22)
              else if e = 0 then 0
              else let sig = 2 ^ 52 + m;
                       sh = (if e < 897 then 29 + (897 - e) else 29);
                       E = (if e < 897 then 0 else e - 897);
                       q = sig div 2 ^ sh; rest = sig mod 2 ^ sh; half = 2 ^ (sh - 1);
                       q' = (if rest > half \<or> rest = half \<and> odd q then q + 1 else q)
                   in min (255 * 2 ^ 23) (E * 2 ^ 23 + q'))
     in Float32frombits (word_of_nat (s * 2 ^ 31 + r)))"

section \<open>The interpreter\<close>

record DataInterpreterConfig =
  BadFloat :: float64
  MostSignificantWordFirst :: bool

record DataInterpreter =
  badFloat :: float32
  mswFirst :: bool

definition NewDataInterpreter :: "DataInterpreterConfig \<Rightarrow> DataInterpreter \<times> goerror option" where
  "NewDataInterpreter cfg =
     (\<lparr>badFloat = narrow (BadFloat cfg), mswFirst = MostSignificantWordFirst cfg\<rparr>, None)"

fun putUintRegLoop :: "('m \<Rightarrow> int \<Rightarrow> uint16 \<Rightarrow> ('m \<times> Exception) outcome) \<Rightarrow> (nat \<Rightarrow> nat) \<Rightarrow> int \<Rightarrow> uint64 \<Rightarrow>
    nat list \<Rightarrow> 'm \<Rightarrow> ('m \<times> Exception) outcome" where
  "putUintRegLoop regSet shift startIdx value [] m = Ret (m, ExceptionNone)"
| "putUintRegLoop regSet shift startIdx value (i # is) m =
     andThen (regSet m (go_add startIdx (int i)) (ucast (drop_bit (shift i) value))) (\<lambda>(m, exc).
       if exc \<noteq> 0 then Ret (m, exc) else putUintRegLoop regSet shift startIdx value is m)"

definition putUintReg :: "DataInterpreter \<Rightarrow> ('m \<Rightarrow> int \<Rightarrow> uint16 \<Rightarrow> ('m \<times> Exception) outcome) \<Rightarrow> 'm \<Rightarrow> int \<Rightarrow>
    nat \<Rightarrow> uint64 \<Rightarrow> ('m \<times> Exception) outcome" where
  "putUintReg di regSet m startIdx sizeWords value =
    (if sizeWords < 2 \<or> sizeWords > 4 then Panic ''bad sizeWords/nil func''
     else if mswFirst di
     then putUintRegLoop regSet (\<lambda>i. (sizeWords - i - 1) * 16) startIdx value [0..<sizeWords] m
     else putUintRegLoop regSet (\<lambda>i. i * 16) startIdx value [0..<sizeWords] m)"

fun uintRegLoop :: "('m \<Rightarrow> int \<Rightarrow> ('m \<times> uint16 \<times> Exception) outcome) \<Rightarrow> (nat \<Rightarrow> nat) \<Rightarrow> int \<Rightarrow>
    nat list \<Rightarrow> uint64 \<Rightarrow> 'm \<Rightarrow> ('m \<times> uint64 \<times> Exception) outcome" where
  "uintRegLoop regGet shift startIdx [] v m = Ret (m, v, ExceptionNone)"
| "uintRegLoop regGet shift startIdx (i # is) v m =
     andThen (regGet m (go_add startIdx (int i))) (\<lambda>(m, u16, exc).
       if exc \<noteq> ExceptionNone then Ret (m, 0, exc)
       else uintRegLoop regGet shift startIdx is (v OR push_bit (shift i) (ucast u16)) m)"

definition uintReg :: "DataInterpreter \<Rightarrow> ('m \<Rightarrow> int \<Rightarrow> ('m \<times> uint16 \<times> Exception) outcome) \<Rightarrow> 'm \<Rightarrow> int \<Rightarrow>
    nat \<Rightarrow> ('m \<times> uint64 \<times> Exception) outcome" where
  "uintReg di regGet m startIdx sizeWords =
    (if sizeWords < 2 \<or> sizeWords > 4 then Panic ''bad sizeWords/nil func''
     else if mswFirst di
     then uintRegLoop regGet (\<lambda>i. (sizeWords - i - 1) * 16) startIdx [0..<sizeWords] 0 m
     else uintRegLoop regGet (\<lambda>i. i * 16) startIdx [0..<sizeWords] 0 m)"

text \<open>\<open>dm, unlock := lockDataModel(dm); defer unlock()\<close> around a body.\<close>

definition with_lock :: "'s DataModel \<Rightarrow> ('s DataModel \<Rightarrow> ('s DataModel \<times> 'r) outcome) \<Rightarrow>
    ('s DataModel \<times> 'r) outcome" where
  "with_lock dm body = andThen (lockDataModel dm) (\<lambda>(m, unlock).
     andThen (body m) (\<lambda>(m, r). Ret (unlock m, r)))"

subsection \<open>Holding registers\<close>

definition Int16Holding :: "DataInterpreter \<Rightarrow> 's DataModelImpl \<Rightarrow> 's DataModel \<Rightarrow> int \<Rightarrow>
    ('s DataModel \<times> int \<times> Exception) outcome" where
  "Int16Holding di I dm i =
     andThen (GetHoldingRegister I dm i) (\<lambda>(dm, i16, exc).
       if exc \<noteq> ExceptionNone then Ret (dm, 0, exc) else Ret (dm, sint i16, ExceptionNone))"

definition Uint32Holding :: "DataInterpreter \<Rightarrow> 's DataModelImpl \<Rightarrow> 's DataModel \<Rightarrow> int \<Rightarrow>
    ('s DataModel \<times> uint32 \<times> Exception) outcome" where
  "Uint32Holding di I dm startIdx = with_lock dm (\<lambda>dm.
     andThen (uintReg di (GetHoldingRegister I) dm startIdx 2) (\<lambda>(dm, v64, exc).
       Ret (dm, ucast v64, exc)))"

definition Uint64Holding :: "DataInterpreter \<Rightarrow> 's DataModelImpl \<Rightarrow> 's DataModel \<Rightarrow> int \<Rightarrow>
    ('s DataModel \<times> uint64 \<times> Exception) outcome" where
  "Uint64Holding di I dm startIdx = with_lock dm (\<lambda>dm.
     uintReg di (GetHoldingRegister I) dm startIdx 4)"

definition Int32Holding :: "DataInterpreter \<Rightarrow> 's DataModelImpl \<Rightarrow> 's DataModel \<Rightarrow> int \<Rightarrow>
    ('s DataModel \<times> int \<times> Exception) outcome" where
  "Int32Holding di I dm startIdx =
     andThen (Uint32Holding di I dm startIdx) (\<lambda>(dm, u32, exc). Ret (dm, sint u32, exc))"

definition Float32Holding :: "DataInterpreter \<Rightarrow> 's DataModelImpl \<Rightarrow> 's DataModel \<Rightarrow> int \<Rightarrow>
    ('s DataModel \<times> float32 \<times> Exception) outcome" where
  "Float32Holding di I dm startIdx =
     andThen (Uint32Holding di I dm startIdx) (\<lambda>(dm, f32, exc).
       if exc \<noteq> ExceptionNone then Ret (dm, badFloat di, exc)
       else Ret (dm, Float32frombits f32, ExceptionNone))"

definition Int64Holding :: "DataInterpreter \<Rightarrow> 's DataModelImpl \<Rightarrow> 's DataModel \<Rightarrow> int \<Rightarrow>
    ('s DataModel \<times> int \<times> Exception) outcome" where
  "Int64Holding di I dm startIdx =
     andThen (Uint64Holding di I dm startIdx) (\<lambda>(dm, u64, exc). Ret (dm, sint u64, exc))"

definition Float64Holding :: "DataInterpreter \<Rightarrow> 's DataModelImpl \<Rightarrow> 's DataModel \<Rightarrow> int \<Rightarrow>
    ('s DataModel \<times> float64 \<times> Exception) outcome" where
  "Float64Holding di I dm startIdx =
     andThen (Uint64Holding di I dm startIdx) (\<lambda>(dm, f64, exc).
       if exc \<noteq> ExceptionNone then Ret (dm, widen (badFloat di), exc)
       else Ret (dm, Float64frombits f64, ExceptionNone))"

subsection \<open>Input registers\<close>

definition Int16Input :: "DataInterpreter \<Rightarrow> 's DataModelImpl \<Rightarrow> 's DataModel \<Rightarrow> int \<Rightarrow>
    ('s DataModel \<times> int \<times> Exception) outcome" where
  "Int16Input di I dm i =
     andThen (GetInputRegister I dm i) (\<lambda>(dm, u16, exc).
       if exc \<noteq> ExceptionNone then Ret (dm, 0, exc) else Ret (dm, sint u16, ExceptionNone))"

definition Uint32Input :: "DataInterpreter \<Rightarrow> 's DataModelImpl \<Rightarrow> 's DataModel \<Rightarrow> int \<Rightarrow>
    ('s DataModel \<times> uint32 \<times> Exception) outcome" where
  "Uint32Input di I dm startIdx = with_lock dm (\<lambda>dm.
     andThen (uintReg di (GetInputRegister I) dm startIdx 2) (\<lambda>(dm, v64, exc).
       Ret (dm, ucast v64, exc)))"

definition Uint64Input :: "DataInterpreter \<Rightarrow> 's DataModelImpl \<Rightarrow> 's DataModel \<Rightarrow> int \<Rightarrow>
    ('s DataModel \<times> uint64 \<times> Exception) outcome" where
  "Uint64Input di I dm startIdx = with_lock dm (\<lambda>dm.
     uintReg di (GetInputRegister I) dm startIdx 4)"

definition Int32Input :: "DataInterpreter \<Rightarrow> 's DataModelImpl \<Rightarrow> 's DataModel \<Rightarrow> int \<Rightarrow>
    ('s DataModel \<times> int \<times> Exception) outcome" where
  "Int32Input di I dm startIdx =
     andThen (Uint32Input di I dm startIdx) (\<lambda>(dm, i32, exc). Ret (dm, sint i32, exc))"

definition Float32Input :: "DataInterpreter \<Rightarrow> 's DataModelImpl \<Rightarrow> 's DataModel \<Rightarrow> int \<Rightarrow>
    ('s DataModel \<times> float32 \<times> Exception) outcome" where
  "Float32Input di I dm startIdx =
     andThen (Uint32Input di I dm startIdx) (\<lambda>(dm, f32, exc).
       if exc \<noteq> ExceptionNone then Ret (dm, badFloat di, exc)
       else Ret (dm, Float32frombits f32, ExceptionNone))"

definition Int64Input :: "DataInterpreter \<Rightarrow> 's DataModelImpl \<Rightarrow> 's DataModel \<Rightarrow> int \<Rightarrow>
    ('s DataModel \<times> int \<times> Exception) outcome" where
  "Int64Input di I dm startIdx =
     andThen (Uint64Input di I dm startIdx) (\<lambda>(dm, u64, exc). Ret (dm, sint u64, exc))"

definition Float64Input :: "DataInterpreter \<Rightarrow> 's DataModelImpl \<Rightarrow> 's DataModel \<Rightarrow> int \<Rightarrow>
    ('s DataModel \<times> float64 \<times> Exception) outcome" where
  "Float64Input di I dm startIdx =
     andThen (Uint64Input di I dm startIdx) (\<lambda>(dm, f64, exc).
       if exc \<noteq> ExceptionNone then Ret (dm, widen (badFloat di), exc)
       else Ret (dm, Float64frombits f64, ExceptionNone))"

subsection \<open>Storing numbers\<close>

definition PutUint64Holding :: "DataInterpreter \<Rightarrow> 's DataModelImpl \<Rightarrow> 's DataModel \<Rightarrow> int \<Rightarrow> uint64 \<Rightarrow>
    ('s DataModel \<times> Exception) outcome" where
  "PutUint64Holding di I dm startIdx v = with_lock dm (\<lambda>dm.
     putUintReg di (SetHoldingRegister I) dm startIdx 4 v)"

definition PutUint32Holding :: "DataInterpreter \<Rightarrow> 's DataModelImpl \<Rightarrow> 's DataModel \<Rightarrow> int \<Rightarrow> uint32 \<Rightarrow>
    ('s DataModel \<times> Exception) outcome" where
  "PutUint32Holding di I dm startIdx v = with_lock dm (\<lambda>dm.
     putUintReg di (SetHoldingRegister I) dm startIdx 2 (ucast v))"

definition PutFloat32Holding :: "DataInterpreter \<Rightarrow> 's DataModelImpl \<Rightarrow> 's DataModel \<Rightarrow> int \<Rightarrow> float32 \<Rightarrow>
    ('s DataModel \<times> Exception) outcome" where
  "PutFloat32Holding di I dm startIdx v = PutUint32Holding di I dm startIdx (Float32bits v)"

definition PutFloat64Holding :: "DataInterpreter \<Rightarrow> 's DataModelImpl \<Rightarrow> 's DataModel \<Rightarrow> int \<Rightarrow> float64 \<Rightarrow>
    ('s DataModel \<times> Exception) outcome" where
  "PutFloat64Holding di I dm startIdx v = PutUint64Holding di I dm startIdx (Float64bits v)"

definition PutUint64Input :: "DataInterpreter \<Rightarrow> 's DataModelImpl \<Rightarrow> 's DataModel \<Rightarrow> int \<Rightarrow> uint64 \<Rightarrow>
    ('s DataModel \<times> Exception) outcome" where
  "PutUint64Input di I dm startIdx v = with_lock dm (\<lambda>dm.
     putUintReg di (SetInputRegister I) dm startIdx 4 v)"

definition PutUint32Input :: "DataInterpreter \<Rightarrow> 's DataModelImpl \<Rightarrow> 's DataModel \<Rightarrow> int \<Rightarrow> uint32 \<Rightarrow>
    ('s DataModel \<times> Exception) outcome" where
  "PutUint32Input di I dm startIdx v = with_lock dm (\<lambda>dm.
     putUintReg di (SetInputRegister I) dm startIdx 2 (ucast v))"

definition PutFloat32Input :: "DataInterpreter \<Rightarrow> 's DataModelImpl \<Rightarrow> 's DataModel \<Rightarrow> int \<Rightarrow> float32 \<Rightarrow>
    ('s DataModel \<times> Exception) outcome" where
  "PutFloat32Input di I dm startIdx v = PutUint32Input di I dm startIdx (Float32bits v)"

text \<open>The one method that locks twice: the inner call locks the model under the outer lock.\<close>

definition PutFloat64Input :: "DataInterpreter \<Rightarrow> 's DataModelImpl \<Rightarrow> 's DataModel \<Rightarrow> int \<Rightarrow> float64 \<Rightarrow>
    ('s DataModel \<times> Exception) outcome" where
  "PutFloat64Input di I dm startIdx v = with_lock dm (\<lambda>dm.
     PutUint64Input di I dm startIdx (Float64bits v))"

subsection \<open>Bytes\<close>

text \<open>
  On an exception the loop returns the index of the register it failed at, at the end the length of
  the slice, as the code does.
\<close>

fun readBytesLoop :: "('m \<Rightarrow> int \<Rightarrow> ('m \<times> uint16 \<times> Exception) outcome) \<Rightarrow> int \<Rightarrow> nat list \<Rightarrow> byte list \<Rightarrow> 'm \<Rightarrow>
    ('m \<times> byte list \<times> nat option \<times> Exception) outcome" where
  "readBytesLoop get16 startIdx [] dst m = Ret (m, dst, None, ExceptionNone)"
| "readBytesLoop get16 startIdx (i # is) dst m =
     andThen (get16 m (go_add (int i) startIdx)) (\<lambda>(m, u16, exc).
       if exc \<noteq> ExceptionNone then Ret (m, dst, Some i, exc)
       else andThen (PutUint16 dst (i * 2) u16) (\<lambda>dst. readBytesLoop get16 startIdx is dst m))"

definition readBytes :: "byte list \<Rightarrow> int \<Rightarrow> ('m \<Rightarrow> int \<Rightarrow> ('m \<times> uint16 \<times> Exception) outcome) \<Rightarrow> 'm \<Rightarrow>
    ('m \<times> byte list \<times> nat \<times> Exception) outcome" where
  "readBytes dst startIdx get16 m =
    (let n = length dst div 2 in
     andThen (readBytesLoop get16 startIdx [0..<n] dst m) (\<lambda>(m, dst, stopped, exc).
       case stopped of Some i \<Rightarrow> Ret (m, dst, i, exc)
       | None \<Rightarrow>
         if length dst mod 2 \<noteq> 0 then
           andThen (get16 m (go_add (int n) startIdx)) (\<lambda>(m, u16, exc).
             if exc \<noteq> ExceptionNone then Ret (m, dst, n, exc)
             else andThen (store dst (length dst - 1) (ucast (drop_bit 8 u16))) (\<lambda>dst.
               Ret (m, dst, length dst, ExceptionNone)))
         else Ret (m, dst, length dst, ExceptionNone)))"

fun writeBytesLoop :: "('m \<Rightarrow> int \<Rightarrow> uint16 \<Rightarrow> ('m \<times> Exception) outcome) \<Rightarrow> byte list \<Rightarrow> int \<Rightarrow> nat list \<Rightarrow> 'm \<Rightarrow>
    ('m \<times> nat option \<times> Exception) outcome" where
  "writeBytesLoop set16 data startIdx [] m = Ret (m, None, ExceptionNone)"
| "writeBytesLoop set16 data startIdx (i # is) m =
     andThen (Uint16 data (i * 2)) (\<lambda>v.
     andThen (set16 m (go_add (int i) startIdx) v) (\<lambda>(m, exc).
       if exc \<noteq> ExceptionNone then Ret (m, Some i, exc)
       else writeBytesLoop set16 data startIdx is m))"

definition writeBytes :: "byte list \<Rightarrow> int \<Rightarrow> ('m \<Rightarrow> int \<Rightarrow> uint16 \<Rightarrow> ('m \<times> Exception) outcome) \<Rightarrow>
    ('m \<Rightarrow> int \<Rightarrow> ('m \<times> uint16 \<times> Exception) outcome) \<Rightarrow> 'm \<Rightarrow> ('m \<times> nat \<times> Exception) outcome" where
  "writeBytes data startIdx set16 get16 m =
    (let n = length data div 2 in
     andThen (writeBytesLoop set16 data startIdx [0..<n] m) (\<lambda>(m, stopped, exc).
       case stopped of Some i \<Rightarrow> Ret (m, i, exc)
       | None \<Rightarrow>
         if length data mod 2 \<noteq> 0 then
           andThen (get16 m (go_add (int n) startIdx)) (\<lambda>(m, u16, exc).
             if exc \<noteq> ExceptionNone then Ret (m, n, exc)
             else andThen (index data (length data - 1)) (\<lambda>b.
               andThen (set16 m (go_add (int n) startIdx) ((u16 AND 0xff) OR push_bit 8 (ucast b)))
                 (\<lambda>(m, exc). if exc \<noteq> ExceptionNone then Ret (m, n, exc)
                   else Ret (m, length data, ExceptionNone))))
         else Ret (m, length data, ExceptionNone)))"

definition ReadBytesInput :: "'s DataModelImpl \<Rightarrow> 's DataModel \<Rightarrow> byte list \<Rightarrow> int \<Rightarrow>
    ('s DataModel \<times> byte list \<times> nat \<times> Exception) outcome" where
  "ReadBytesInput I dm dst startIdx = with_lock dm (readBytes dst startIdx (GetInputRegister I))"

definition ReadBytesHolding :: "'s DataModelImpl \<Rightarrow> 's DataModel \<Rightarrow> byte list \<Rightarrow> int \<Rightarrow>
    ('s DataModel \<times> byte list \<times> nat \<times> Exception) outcome" where
  "ReadBytesHolding I dm dst startIdx = with_lock dm (readBytes dst startIdx (GetHoldingRegister I))"

definition WriteBytesInput :: "'s DataModelImpl \<Rightarrow> 's DataModel \<Rightarrow> byte list \<Rightarrow> int \<Rightarrow>
    ('s DataModel \<times> nat \<times> Exception) outcome" where
  "WriteBytesInput I dm data startIdx =
     with_lock dm (writeBytes data startIdx (SetInputRegister I) (GetInputRegister I))"

definition WriteBytesHolding :: "'s DataModelImpl \<Rightarrow> 's DataModel \<Rightarrow> byte list \<Rightarrow> int \<Rightarrow>
    ('s DataModel \<times> nat \<times> Exception) outcome" where
  "WriteBytesHolding I dm data startIdx =
     with_lock dm (writeBytes data startIdx (SetHoldingRegister I) (GetHoldingRegister I))"

subsection \<open>Slices of registers\<close>

fun read16Loop :: "('m \<Rightarrow> int \<Rightarrow> ('m \<times> uint16 \<times> Exception) outcome) \<Rightarrow> int \<Rightarrow> nat list \<Rightarrow> uint16 list \<Rightarrow> 'm \<Rightarrow>
    ('m \<times> uint16 list \<times> nat \<times> Exception) outcome" where
  "read16Loop get16 startIdx [] dst m = Ret (m, dst, length dst, ExceptionNone)"
| "read16Loop get16 startIdx (i # is) dst m =
     andThen (get16 m (go_add (int i) startIdx)) (\<lambda>(m, u16, exc).
       if exc \<noteq> ExceptionNone then Ret (m, dst, i, exc)
       else read16Loop get16 startIdx is (dst[i := u16]) m)"

definition read16 :: "uint16 list \<Rightarrow> int \<Rightarrow> ('m \<Rightarrow> int \<Rightarrow> ('m \<times> uint16 \<times> Exception) outcome) \<Rightarrow> 'm \<Rightarrow>
    ('m \<times> uint16 list \<times> nat \<times> Exception) outcome" where
  "read16 dst startIdx get16 m = read16Loop get16 startIdx [0..<length dst] dst m"

fun write16Loop :: "('m \<Rightarrow> int \<Rightarrow> uint16 \<Rightarrow> ('m \<times> Exception) outcome) \<Rightarrow> uint16 list \<Rightarrow> int \<Rightarrow> nat list \<Rightarrow> 'm \<Rightarrow>
    ('m \<times> nat \<times> Exception) outcome" where
  "write16Loop set16 data startIdx [] m = Ret (m, length data, ExceptionNone)"
| "write16Loop set16 data startIdx (i # is) m =
     andThen (set16 m (go_add (int i) startIdx) (data ! i)) (\<lambda>(m, exc).
       if exc \<noteq> ExceptionNone then Ret (m, i, exc)
       else write16Loop set16 data startIdx is m)"

definition write16 :: "uint16 list \<Rightarrow> int \<Rightarrow> ('m \<Rightarrow> int \<Rightarrow> uint16 \<Rightarrow> ('m \<times> Exception) outcome) \<Rightarrow> 'm \<Rightarrow>
    ('m \<times> nat \<times> Exception) outcome" where
  "write16 data startIdx set16 m = write16Loop set16 data startIdx [0..<length data] m"

definition ReadUint16Input :: "'s DataModelImpl \<Rightarrow> 's DataModel \<Rightarrow> uint16 list \<Rightarrow> int \<Rightarrow>
    ('s DataModel \<times> uint16 list \<times> nat \<times> Exception) outcome" where
  "ReadUint16Input I dm dst startIdx = with_lock dm (read16 dst startIdx (GetInputRegister I))"

definition ReadUint16Holding :: "'s DataModelImpl \<Rightarrow> 's DataModel \<Rightarrow> uint16 list \<Rightarrow> int \<Rightarrow>
    ('s DataModel \<times> uint16 list \<times> nat \<times> Exception) outcome" where
  "ReadUint16Holding I dm dst startIdx = with_lock dm (read16 dst startIdx (GetHoldingRegister I))"

definition WriteUint16Input :: "'s DataModelImpl \<Rightarrow> 's DataModel \<Rightarrow> uint16 list \<Rightarrow> int \<Rightarrow>
    ('s DataModel \<times> nat \<times> Exception) outcome" where
  "WriteUint16Input I dm data startIdx = with_lock dm (write16 data startIdx (SetInputRegister I))"

definition WriteUint16Holding :: "'s DataModelImpl \<Rightarrow> 's DataModel \<Rightarrow> uint16 list \<Rightarrow> int \<Rightarrow>
    ('s DataModel \<times> nat \<times> Exception) outcome" where
  "WriteUint16Holding I dm data startIdx = with_lock dm (write16 data startIdx (SetHoldingRegister I))"

section \<open>A table of registers\<close>

lemma fold_upd_range:
  "fold (\<lambda>i f. f(s + int i := w i)) [0..<k] g = upd_range g s (map w [0..<k])"
proof (induction k)
  case 0
  then show ?case by simp
next
  case (Suc k)
  have "upd_range g s (map w [0..<Suc k]) = (upd_range g s (map w [0..<k]))(s + int k := w k)"
    using take_Suc_upd [of k "map w [0..<Suc k]" g s] by (simp add: nth_append)
  with Suc show ?case by (simp del: fun_upd_apply)
qed

text \<open>The 16-bit words of a number, most or least significant word first.\<close>

definition words_of :: "DataInterpreter \<Rightarrow> nat \<Rightarrow> uint64 \<Rightarrow> uint16 list" where
  "words_of di n v = map (\<lambda>i. ucast (drop_bit ((if mswFirst di then n - i - 1 else i) * 16) v)) [0..<n]"

lemma length_words_of [simp]: "length (words_of di n v) = n"
  by (simp add: words_of_def)

text \<open>The number whose words are \<open>w 0\<close>, \<open>w 1\<close>, ...\<close>

definition join_words :: "DataInterpreter \<Rightarrow> nat \<Rightarrow> (nat \<Rightarrow> uint16) \<Rightarrow> uint64" where
  "join_words di n w =
     fold (\<lambda>i v. v OR push_bit ((if mswFirst di then n - i - 1 else i) * 16) (ucast (w i))) [0..<n] 0"

text \<open>
  The registers that hold a byte string: an odd last byte shares its register with the low byte that
  was there.
\<close>

definition bytes_regs :: "byte list \<Rightarrow> uint16 \<Rightarrow> uint16 list" where
  "bytes_regs data old = data_regs data (length data div 2) @
     (if even (length data) then [] else [be16 (last data) (lo8 old)])"

lemma length_bytes_regs [simp]: "length (bytes_regs data old) = (length data + 1) div 2"
  by (auto simp: bytes_regs_def elim!: oddE)

lemma be_bytes_bytes_regs: "take (length data) (be_bytes (bytes_regs data old)) = data"
proof (cases "even (length data)")
  case True
  then show ?thesis by (simp add: bytes_regs_def be_bytes_data_regs)
next
  case False
  then have len: "length data = Suc (2 * (length data div 2))" by presburger
  then have "take (2 * (length data div 2)) data @ [last data] = data"
    by (metis append_butlast_last_id butlast_conv_take diff_Suc_1 list.size(3) nat.distinct(1))
  moreover have "take (Suc (2 * (length data div 2))) (be_bytes (bytes_regs data old)) =
      take (2 * (length data div 2)) data @ [last data]"
    using False by (simp add: bytes_regs_def be_bytes_data_regs del: odd_two_times_div_two_nat)
  ultimately show ?thesis using len by simp
qed

lemma be16_low:
  fixes b :: byte
  shows "(v AND 255) OR push_bit 8 (ucast b) = be16 b (lo8 v)"
proof (rule bit_word_eqI)
  have "bit (255 :: uint16) n \<longleftrightarrow> n < 8" for n
    using bit_mask_iff [of 8 n, where 'a = uint16] by (auto simp: mask_eq_exp_minus_1)
  then show "bit ((v AND 255) OR push_bit 8 (ucast b)) n = bit (be16 b (lo8 v)) n" if "n < LENGTH(16)" for n
    using that by (auto simp: be16_def lo8_def bit_simps)
qed

locale register_table =
  data_table getv setv ok val rest bound zero
  for getv :: "'m \<Rightarrow> int \<Rightarrow> ('m \<times> uint16 \<times> Exception) outcome"
    and setv :: "'m \<Rightarrow> int \<Rightarrow> uint16 \<Rightarrow> ('m \<times> Exception) outcome"
    and ok :: "'m \<Rightarrow> bool" and val :: "'m \<Rightarrow> int \<Rightarrow> uint16" and rest :: "'m \<Rightarrow> 'r"
    and bound :: int and zero :: uint16 +
  assumes bound_small: "bound \<le> 65536"
begin

lemma index_in:
  assumes "0 \<le> s" and "s + int i < bound"
  shows "go_add s (int i) = s + int i" and "go_add (int i) s = s + int i"
  using assms bound_small by (simp_all add: go_add_small add.commute)

lemma putUintRegLoop_ok:
  assumes "ok m" and "0 \<le> s" and "\<forall>i \<in> set is. s + int i < bound"
  shows "\<exists>m'. putUintRegLoop setv shift s v is m = Ret (m', ExceptionNone) \<and> ok m' \<and> rest m' = rest m \<and>
    val m' = fold (\<lambda>i f. f(s + int i := ucast (drop_bit (shift i) v))) is (val m)"
  using assms
proof (induction "is" arbitrary: m)
  case Nil
  then show ?case by simp
next
  case (Cons i "is")
  let ?w = "ucast (drop_bit (shift i) v) :: uint16"
  obtain m1 where m1: "setv m (s + int i) ?w = Ret (m1, ExceptionNone)" "ok m1" "rest m1 = rest m"
      "val m1 = (val m)(s + int i := ?w)"
    using set_in [of m "s + int i" ?w] Cons.prems by auto
  with Cons.IH [of m1] Cons.prems show ?case by (simp add: index_in)
qed

lemma uintRegLoop_ok:
  assumes "ok m" and "0 \<le> s" and "\<forall>i \<in> set is. s + int i < bound"
  shows "uintRegLoop getv shift s is v m =
    Ret (m, fold (\<lambda>i v. v OR push_bit (shift i) (ucast (val m (s + int i)))) is v, ExceptionNone)"
  using assms
  by (induction "is" arbitrary: v) (simp_all add: index_in get_in)

lemma write16Loop_ok:
  assumes "ok m" and "0 \<le> s" and "s + int (length data) \<le> bound" and "i + n = length data"
  shows "\<exists>m'. write16Loop setv data s [i..<length data] m = Ret (m', length data, ExceptionNone) \<and> ok m' \<and>
    rest m' = rest m \<and> val m' = upd_range (val m) (s + int i) (drop i data)"
  using assms
proof (induction n arbitrary: i m)
  case 0
  then show ?case by simp
next
  case (Suc n)
  then have i: "i < length data" by simp
  obtain m1 where m1: "setv m (s + int i) (data ! i) = Ret (m1, ExceptionNone)" "ok m1"
      "rest m1 = rest m" "val m1 = (val m)(s + int i := data ! i)"
    using set_in [of m "s + int i" "data ! i"] Suc.prems i by auto
  have "drop i data = data ! i # drop (Suc i) data" using i by (rule Cons_nth_drop_Suc [symmetric])
  then have "upd_range (val m) (s + int i) (drop i data) = upd_range (val m1) (s + int (Suc i)) (drop (Suc i) data)"
    by (simp add: m1(4) upd_range_Cons ac_simps)
  moreover have "write16Loop setv data s [i..<length data] m = write16Loop setv data s [Suc i..<length data] m1"
    using m1(1) index_in [of s i] Suc.prems i by (simp add: upt_conv_Cons)
  ultimately show ?case using Suc.IH [of m1 "Suc i"] m1(2,3) Suc.prems by simp
qed

lemma read16Loop_ok:
  assumes "ok m" and "0 \<le> s" and "s + int (length dst) \<le> bound" and "i + n = length dst"
  shows "read16Loop getv s [i..<length dst] dst m =
    Ret (m, take i dst @ map (\<lambda>k. val m (s + int k)) [i..<length dst], length dst, ExceptionNone)"
  using assms
proof (induction n arbitrary: i dst)
  case 0
  then show ?case by simp
next
  case (Suc n)
  then have i: "i < length dst" by simp
  let ?d = "dst[i := val m (s + int i)]"
  have upt: "[i..<length dst] = i # [Suc i..<length dst]" using i by (rule upt_conv_Cons)
  have "read16Loop getv s [i..<length dst] dst m = read16Loop getv s [Suc i..<length ?d] ?d m"
    using get_in [of m "s + int i"] index_in [of s i] Suc.prems i by (simp add: upt)
  also have "\<dots> = Ret (m, take (Suc i) ?d @ map (\<lambda>k. val m (s + int k)) [Suc i..<length ?d], length ?d, ExceptionNone)"
    using Suc.prems by (intro Suc.IH) simp_all
  also have "take (Suc i) ?d = take i dst @ [val m (s + int i)]"
    using i by (simp add: take_Suc_conv_app_nth)
  finally show ?case by (simp add: upt)
qed

lemma uintRegLoop_stop:
  assumes "ok m" and "is = [] \<or> 0 \<le> s" and "\<forall>i \<in> set is. s + int i < bound" and "bound \<le> go_add s (int k) \<or> go_add s (int k) < 0"
  shows "uintRegLoop getv shift s (is @ k # js) v m = Ret (m, 0, ExceptionIllegalDataAddr)"
  using assms by (induction "is" arbitrary: v) (auto simp: index_in get_in get_out)

lemma putUintRegLoop_stop:
  assumes "ok m" and "is = [] \<or> 0 \<le> s" and "\<forall>i \<in> set is. s + int i < bound" and "bound \<le> go_add s (int k) \<or> go_add s (int k) < 0"
  shows "\<exists>m'. putUintRegLoop setv shift s v (is @ k # js) m = Ret (m', ExceptionIllegalDataAddr) \<and> ok m' \<and>
    rest m' = rest m \<and> val m' = fold (\<lambda>i f. f(s + int i := ucast (drop_bit (shift i) v))) is (val m)"
  using assms(1-3)
proof (induction "is" arbitrary: m)
  case Nil
  then show ?case using set_out [of m "go_add s (int k)"] assms(4) by auto
next
  case (Cons i "is")
  let ?w = "ucast (drop_bit (shift i) v) :: uint16"
  obtain m1 where m1: "setv m (s + int i) ?w = Ret (m1, ExceptionNone)" "ok m1" "rest m1 = rest m"
      "val m1 = (val m)(s + int i := ?w)"
    using set_in [of m "s + int i" ?w] Cons.prems by auto
  with Cons.IH [of m1] Cons.prems show ?case by (simp add: index_in)
qed

text \<open>Storing and reading a number of \<open>n\<close> words.\<close>

lemma putUintReg_ok:
  assumes "ok m" and "0 \<le> s" and "s + int n \<le> bound" and "2 \<le> n" and "n \<le> 4"
  shows "\<exists>m'. putUintReg di setv m s n v = Ret (m', ExceptionNone) \<and> ok m' \<and> rest m' = rest m \<and>
    val m' = upd_range (val m) s (words_of di n v)"
proof -
  have "\<forall>i \<in> set [0..<n]. s + int i < bound" using assms(3) by auto
  from putUintRegLoop_ok [OF assms(1,2) this] assms(4,5) show ?thesis
    by (simp add: putUintReg_def words_of_def fold_upd_range del: fun_upd_apply)
qed

lemma uintReg_ok:
  assumes "ok m" and "0 \<le> s" and "s + int n \<le> bound" and "2 \<le> n" and "n \<le> 4"
  shows "uintReg di getv m s n = Ret (m, join_words di n (\<lambda>i. val m (s + int i)), ExceptionNone)"
proof -
  have "\<forall>i \<in> set [0..<n]. s + int i < bound" using assms(3) by auto
  from uintRegLoop_ok [OF assms(1,2) this] assms(4,5) show ?thesis
    by (simp add: uintReg_def join_words_def)
qed

text \<open>
  A number that does not fit: reading gives the exception, storing stops at the first register out
  of the table and leaves the words before it written.
\<close>

lemma upt_stop: "k < n \<Longrightarrow> [0..<n] = [0..<k] @ k # [Suc k..<n]"
  using upt_add_eq_append [of 0 k "n - k"] by (simp add: upt_conv_Cons)

lemma first_out:
  assumes "- (2 ^ 63) \<le> s" and "s < 2 ^ 63" and "s < 0 \<or> bound < s + int n" and "2 \<le> n" and "0 < bound"
  defines "k \<equiv> (if s < 0 then 0 else nat (bound - s))"
  shows "k < n" and "\<forall>i \<in> set [0..<k]. s + int i < bound"
    and "bound \<le> go_add s (int k) \<or> go_add s (int k) < 0"
proof -
  show "k < n" using assms by auto
  show "\<forall>i \<in> set [0..<k]. s + int i < bound" using assms by auto
  have "go_add s (int k) = s + int k"
    using assms bound_small by (intro go_add_small) (auto simp: not_less)
  then show "bound \<le> go_add s (int k) \<or> go_add s (int k) < 0" using assms by auto
qed

lemma uintReg_out:
  assumes "ok m" and s: "- (2 ^ 63) \<le> s" "s < 2 ^ 63" "s < 0 \<or> bound < s + int n" and n: "2 \<le> n" "n \<le> 4"
    and "0 < bound"
  shows "uintReg di getv m s n = Ret (m, 0, ExceptionIllegalDataAddr)"
proof -
  define k where "k = (if s < 0 then 0 else nat (bound - s))"
  note out = first_out [OF s n(1) assms(7), folded k_def]
  have "uintRegLoop getv shift s [0..<n] 0 m = Ret (m, 0, ExceptionIllegalDataAddr)" for shift
    using uintRegLoop_stop [OF assms(1) _ out(2,3)] by (simp add: upt_stop [OF out(1)] k_def del: upt_Suc)
  then show ?thesis using n by (simp add: uintReg_def)
qed

lemma putUintReg_out:
  assumes "ok m" and s: "- (2 ^ 63) \<le> s" "s < 2 ^ 63" "s < 0 \<or> bound < s + int n" and n: "2 \<le> n" "n \<le> 4"
    and "0 < bound"
  shows "\<exists>m'. putUintReg di setv m s n v = Ret (m', ExceptionIllegalDataAddr) \<and> ok m' \<and> rest m' = rest m \<and>
    val m' = upd_range (val m) s (take (if s < 0 then 0 else nat (bound - s)) (words_of di n v))"
proof -
  define k where "k = (if s < 0 then 0 else nat (bound - s))"
  note out = first_out [OF s n(1) assms(7), folded k_def]
  have start: "[0..<k] = [] \<or> 0 \<le> s" by (simp add: k_def)
  have "\<exists>m'. putUintRegLoop setv shift s v [0..<n] m = Ret (m', ExceptionIllegalDataAddr) \<and> ok m' \<and>
      rest m' = rest m \<and> val m' = upd_range (val m) s (map (\<lambda>i. ucast (drop_bit (shift i) v)) [0..<k])" for shift
    using putUintRegLoop_stop [OF assms(1) start out(2,3), of shift v "[Suc k..<n]"]
    by (simp add: upt_stop [OF out(1)] fold_upd_range del: upt_Suc fun_upd_apply)
  moreover have "take k (words_of di n v) =
      map (\<lambda>i. ucast (drop_bit ((if mswFirst di then n - i - 1 else i) * 16) v)) [0..<k]"
    using out(1) by (simp add: words_of_def take_map)
  ultimately show ?thesis using n unfolding k_def [symmetric] by (simp add: putUintReg_def)
qed

text \<open>Bytes, the last one of an odd number in the high half of its register.\<close>

lemma writeBytesLoop_ok:
  assumes "ok m" and "0 \<le> s" and "\<forall>i \<in> set is. s + int i < bound \<and> 2 * i + 1 < length data"
  shows "\<exists>m'. writeBytesLoop setv data s is m = Ret (m', None, ExceptionNone) \<and> ok m' \<and> rest m' = rest m \<and>
    val m' = fold (\<lambda>i f. f(s + int i := be16 (data ! (2 * i)) (data ! (2 * i + 1)))) is (val m)"
  using assms
proof (induction "is" arbitrary: m)
  case Nil
  then show ?case by simp
next
  case (Cons i "is")
  let ?w = "be16 (data ! (2 * i)) (data ! (2 * i + 1))"
  obtain m1 where m1: "setv m (s + int i) ?w = Ret (m1, ExceptionNone)" "ok m1" "rest m1 = rest m"
      "val m1 = (val m)(s + int i := ?w)"
    using set_in [of m "s + int i" ?w] Cons.prems by auto
  with Cons.IH [of m1] Cons.prems show ?case by (simp add: index_in go_simps mult.commute)
qed

lemma readBytesLoop_ok:
  assumes "ok m" and "0 \<le> s" and "\<forall>i \<in> set is. s + int i < bound \<and> 2 * i + 1 < length dst"
  shows "readBytesLoop getv s is dst m =
    Ret (m, fold (\<lambda>i d. d[2 * i := hi8 (val m (s + int i)), 2 * i + 1 := lo8 (val m (s + int i))]) is dst, None,
      ExceptionNone)"
  using assms
  by (induction "is" arbitrary: dst) (simp_all add: index_in get_in go_simps mult.commute)

lemma writeBytes_ok:
  assumes "ok m" and "0 \<le> s" and "s + int ((length data + 1) div 2) \<le> bound"
  shows "\<exists>m'. writeBytes data s setv getv m = Ret (m', length data, ExceptionNone) \<and> ok m' \<and> rest m' = rest m \<and>
    val m' = upd_range (val m) s (bytes_regs data (val m (s + int (length data div 2))))"
proof -
  let ?n = "length data div 2"
  have "\<forall>i \<in> set [0..<?n]. s + int i < bound \<and> 2 * i + 1 < length data" using assms(3) by auto
  from writeBytesLoop_ok [OF assms(1,2) this] obtain m1 where
    m1: "writeBytesLoop setv data s [0..<?n] m = Ret (m1, None, ExceptionNone)" "ok m1" "rest m1 = rest m"
      "val m1 = upd_range (val m) s (data_regs data ?n)"
    by (auto simp: fold_upd_range data_regs_def)
  show ?thesis
  proof (cases "even (length data)")
    case True
    with m1 show ?thesis by (auto simp: writeBytes_def bytes_regs_def)
  next
    case False
    then have n: "s + int ?n < bound" "length data \<noteq> 0" using assms(3) by (auto elim!: oddE)
    let ?old = "val m (s + int ?n)"
    let ?w = "be16 (last data) (lo8 ?old)"
    have val: "val m1 (s + int ?n) = ?old" by (simp add: m1(4) upd_range_def)
    have w: "(?old AND 255) OR push_bit 8 (ucast (data ! (length data - 1))) = ?w"
      using n(2) by (simp add: be16_low last_conv_nth)
    obtain m2 where m2: "setv m1 (s + int ?n) ?w = Ret (m2, ExceptionNone)" "ok m2" "rest m2 = rest m1"
        "val m2 = (val m1)(s + int ?n := ?w)"
      using set_in [of m1 "s + int ?n" ?w] m1(2) n(1) assms(2) by auto
    have "val m2 = upd_range (val m) s (bytes_regs data ?old)"
      using take_Suc_upd [of ?n "bytes_regs data ?old" "val m" s] False
      by (simp add: m2(4) m1(4) bytes_regs_def nth_append)
    with m1(1-3) m2(1-3) False n get_in [of m1 "s + int ?n"] index_in [OF assms(2) n(1)] assms(2) w show ?thesis
      by (auto simp: writeBytes_def Let_def val go_simps)
  qed
qed

lemma readBytes_ok:
  assumes "ok m" and "0 \<le> s" and "s + int ((length dst + 1) div 2) \<le> bound"
  shows "readBytes dst s getv m =
    Ret (m, take (length dst) (be_bytes (map (\<lambda>i. val m (s + int i)) [0..<(length dst + 1) div 2])), length dst,
      ExceptionNone)"
proof -
  let ?n = "length dst div 2"
  let ?v = "\<lambda>i. val m (s + int i)"
  have "\<forall>i \<in> set [0..<?n]. s + int i < bound \<and> 2 * i + 1 < length dst" using assms(3) by auto
  from readBytesLoop_ok [OF assms(1,2) this]
  have loop: "readBytesLoop getv s [0..<?n] dst m =
      Ret (m, be_bytes (map ?v [0..<?n]) @ drop (2 * ?n) dst, None, ExceptionNone)"
    by (simp add: fold_put16 [unfolded One_nat_def add_Suc_right add_0_right])
  show ?thesis
  proof (cases "even (length dst)")
    case True
    then show ?thesis by (simp add: readBytes_def Let_def loop)
  next
    case False
    then obtain k where k: "length dst = 2 * k + 1" by (auto elim!: oddE)
    then have n: "s + int k < bound" using assms(3) by simp
    have b: "drop (2 * k) dst = [dst ! (2 * k)]" using k Cons_nth_drop_Suc [of "2 * k" dst] by simp
    show ?thesis
      using k n get_in [of m "s + int k"] index_in [OF assms(2) n] assms(1,2) loop
      by (simp add: readBytes_def Let_def b go_simps hi8_def [symmetric] list_update_append)
  qed
qed

end

interpretation holding_regs: register_table "GetHoldingRegister I" "SetHoldingRegister I" dm_ok holding
    "\<lambda>dm. (inputs dm, coil dm, discrete dm)" 125 0
  for I
  by unfold_locales simp

interpretation input_regs: register_table "GetInputRegister I" "SetInputRegister I" dm_ok inputs
    "\<lambda>dm. (holding dm, coil dm, discrete dm)" 125 0
  for I
  by unfold_locales simp

section \<open>Numbers\<close>

lemma with_lock_ok [simp]:
  "dm_ok dm \<Longrightarrow> with_lock dm body = andThen (body (unlocked dm)) (\<lambda>(m, r). Ret (relock dm m, r))"
  by (simp add: with_lock_def)

lemma upt_words: "[0..<4] = [0, 1, 2, 3]" "[0..<2] = [0, 1]"
  by (simp_all add: upt_rec)

lemma bit_word_part:
  fixes v :: uint64
  shows "bit (push_bit k (ucast (ucast (drop_bit k v) :: uint16)) :: uint64) n \<longleftrightarrow>
    k \<le> n \<and> n < k + 16 \<and> n < 64 \<and> bit v n"
  by (auto simp: bit_simps)

lemma join4_lsw:
  fixes v :: uint64
  shows "fold (\<lambda>i w. w OR push_bit (i * 16) (ucast (ucast (drop_bit (i * 16) v) :: uint16))) [0..<4] 0 = v"
  by (rule bit_word_eqI)
    (auto simp: upt_words bit_or_iff bit_word_part bit_ucast_iff not_less_eq simp del: One_nat_def)

lemma join4_msw:
  fixes v :: uint64
  shows "fold (\<lambda>i w. w OR push_bit ((4 - i - 1) * 16) (ucast (ucast (drop_bit ((4 - i - 1) * 16) v) :: uint16)))
      [0..<4] 0 = v"
  by (rule bit_word_eqI)
    (auto simp: upt_words bit_or_iff bit_word_part bit_ucast_iff not_less_eq simp del: One_nat_def)

lemma join2_lsw:
  fixes u :: uint32
  shows "ucast (fold (\<lambda>i w. w OR push_bit (i * 16) (ucast (ucast (drop_bit (i * 16) (ucast u :: uint64)) :: uint16)))
      [0..<2] (0 :: uint64)) = u"
  by (rule bit_word_eqI) (auto simp: upt_words bit_or_iff bit_word_part bit_ucast_iff simp del: One_nat_def)

lemma join2_msw:
  fixes u :: uint32
  shows "ucast (fold (\<lambda>i w. w OR push_bit ((2 - i - 1) * 16) (ucast (ucast (drop_bit ((2 - i - 1) * 16)
      (ucast u :: uint64)) :: uint16))) [0..<2] (0 :: uint64)) = u"
  by (rule bit_word_eqI) (auto simp: upt_words bit_or_iff bit_word_part bit_ucast_iff simp del: One_nat_def)

lemma join_words_4: "(\<And>i. i < 4 \<Longrightarrow> w i = words_of di 4 v ! i) \<Longrightarrow> join_words di 4 w = v"
proof -
  assume w: "\<And>i. i < 4 \<Longrightarrow> w i = words_of di 4 v ! i"
  have "join_words di 4 w = join_words di 4 (\<lambda>i. words_of di 4 v ! i)"
    unfolding join_words_def using w by (intro fold_cong) auto
  then show ?thesis using join4_lsw [of v] join4_msw [of v]
    by (simp add: join_words_def words_of_def upt_words)
qed

lemma join_words_2:
  "(\<And>i. i < 2 \<Longrightarrow> w i = words_of di 2 (ucast u) ! i) \<Longrightarrow> ucast (join_words di 2 w) = (u :: uint32)"
proof -
  assume w: "\<And>i. i < 2 \<Longrightarrow> w i = words_of di 2 (ucast u) ! i"
  have "join_words di 2 w = join_words di 2 (\<lambda>i. words_of di 2 (ucast u) ! i)"
    unfolding join_words_def using w by (intro fold_cong) auto
  then show ?thesis using join2_lsw [of u] join2_msw [of u]
    by (simp add: join_words_def words_of_def upt_words)
qed

section \<open>Properties\<close>

lemma tables_relock [simp]:
  "holding (relock dm m) = holding m" "inputs (relock dm m) = inputs m"
  "coil (relock dm m) = coil m" "discrete (relock dm m) = discrete m"
  "holding (unlocked dm) = holding dm" "inputs (unlocked dm) = inputs dm"
  "coil (unlocked dm) = coil dm" "discrete (unlocked dm) = discrete dm"
  by (rule tables_cong; simp)+

text \<open>
  Every pair of a writing and a reading method, on the holding and on the input registers: the
  write puts the words into one table and changes nothing else.
\<close>

definition wrote_holding :: "('s DataModel \<times> Exception) outcome \<Rightarrow> 's DataModel \<Rightarrow> int \<Rightarrow> uint16 list \<Rightarrow> 's DataModel \<Rightarrow> bool" where
  "wrote_holding r dm s ws dm' \<longleftrightarrow> r = Ret (dm', ExceptionNone) \<and> dm_ok dm' \<and>
     bank_of dm' = (bank_of dm)\<lparr>bHolding := upd_range (holding dm) s ws\<rparr>"

definition wrote_inputs :: "('s DataModel \<times> Exception) outcome \<Rightarrow> 's DataModel \<Rightarrow> int \<Rightarrow> uint16 list \<Rightarrow> 's DataModel \<Rightarrow> bool" where
  "wrote_inputs r dm s ws dm' \<longleftrightarrow> r = Ret (dm', ExceptionNone) \<and> dm_ok dm' \<and>
     bank_of dm' = (bank_of dm)\<lparr>bInputs := upd_range (inputs dm) s ws\<rparr>"

lemma put_holding:
  assumes "dm_ok dm" and "0 \<le> s" and "s + int n \<le> 125" and "2 \<le> n" and "n \<le> 4"
  shows "\<exists>dm'. wrote_holding (with_lock dm (\<lambda>dm. putUintReg di (SetHoldingRegister I) dm s n v)) dm s
    (words_of di n v) dm'"
  using holding_regs.putUintReg_ok [of "unlocked dm" s n di I v] assms
  by (auto simp: wrote_holding_def bank_of_def)

lemma put_inputs:
  assumes "dm_ok dm" and "0 \<le> s" and "s + int n \<le> 125" and "2 \<le> n" and "n \<le> 4"
  shows "\<exists>dm'. wrote_inputs (with_lock dm (\<lambda>dm. putUintReg di (SetInputRegister I) dm s n v)) dm s
    (words_of di n v) dm'"
  using input_regs.putUintReg_ok [of "unlocked dm" s n di I v] assms
  by (auto simp: wrote_inputs_def bank_of_def)

lemma get_numbers:
  assumes "dm_ok dm" and "0 \<le> s" and "s + 4 \<le> 125"
  shows "Uint64Holding di I dm s = Ret (dm, join_words di 4 (\<lambda>i. holding dm (s + int i)), ExceptionNone)"
    and "Uint64Input di I dm s = Ret (dm, join_words di 4 (\<lambda>i. inputs dm (s + int i)), ExceptionNone)"
  using assms holding_regs.uintReg_ok [of "unlocked dm" s 4 di I]
    input_regs.uintReg_ok [of "unlocked dm" s 4 di I]
  by (simp_all add: Uint64Holding_def Uint64Input_def)

lemma get_numbers32:
  assumes "dm_ok dm" and "0 \<le> s" and "s + 2 \<le> 125"
  shows "Uint32Holding di I dm s =
      Ret (dm, ucast (join_words di 2 (\<lambda>i. holding dm (s + int i))), ExceptionNone)"
    and "Uint32Input di I dm s =
      Ret (dm, ucast (join_words di 2 (\<lambda>i. inputs dm (s + int i))), ExceptionNone)"
  using assms holding_regs.uintReg_ok [of "unlocked dm" s 2 di I]
    input_regs.uintReg_ok [of "unlocked dm" s 2 di I]
  by (simp_all add: Uint32Holding_def Uint32Input_def)

lemma wrote_table:
  "wrote_holding r dm s ws dm' \<Longrightarrow> holding dm' = upd_range (holding dm) s ws"
  "wrote_inputs r dm s ws dm' \<Longrightarrow> inputs dm' = upd_range (inputs dm) s ws"
  "wrote_holding r dm s ws dm' \<Longrightarrow> dm_ok dm'" "wrote_inputs r dm s ws dm' \<Longrightarrow> dm_ok dm'"
  by (simp_all add: wrote_holding_def wrote_inputs_def bank_of_def)

lemma join_upd_range:
  "join_words di 4 (\<lambda>i. upd_range f s (words_of di 4 v) (s + int i)) = v"
  "ucast (join_words di 2 (\<lambda>i. upd_range f s (words_of di 2 (ucast u)) (s + int i))) = (u :: uint32)"
  by (rule join_words_4 join_words_2; simp add: upd_range_def)+

lemma relock_wrote_inputs:
  assumes "wrote_inputs r (unlocked dm) s ws m" and "dm_ok dm"
  shows "wrote_inputs (andThen r (\<lambda>(m, r). Ret (relock dm m, r))) dm s ws (relock dm m)"
  using assms by (auto simp: wrote_inputs_def bank_of_def)

text \<open>
  C28. A 64-bit number stored in four holding or input registers, in either word order, changes
  only those registers and is read back as the same unsigned, signed and floating-point number;
  storing a float stores its bits, also through the method that locks the model twice.
\<close>

theorem uint64_roundtrip:
  assumes "dm_ok dm" and "0 \<le> s" and "s + 4 \<le> 125"
  shows "(\<exists>dm'. wrote_holding (PutUint64Holding di I dm s v) dm s (words_of di 4 v) dm' \<and>
      PutFloat64Holding di I dm s (Float64frombits v) = Ret (dm', ExceptionNone) \<and>
      Uint64Holding di I dm' s = Ret (dm', v, ExceptionNone) \<and>
      Int64Holding di I dm' s = Ret (dm', sint v, ExceptionNone) \<and>
      Float64Holding di I dm' s = Ret (dm', Float64frombits v, ExceptionNone)) \<and>
    (\<exists>dm'. wrote_inputs (PutUint64Input di I dm s v) dm s (words_of di 4 v) dm' \<and>
      Uint64Input di I dm' s = Ret (dm', v, ExceptionNone) \<and>
      Int64Input di I dm' s = Ret (dm', sint v, ExceptionNone)) \<and>
    (\<exists>dm'. wrote_inputs (PutFloat64Input di I dm s (Float64frombits v)) dm s (words_of di 4 v) dm' \<and>
      Float64Input di I dm' s = Ret (dm', Float64frombits v, ExceptionNone))"
proof (intro conjI)
  obtain h where h: "wrote_holding (PutUint64Holding di I dm s v) dm s (words_of di 4 v) h"
    using put_holding [of dm s 4 di I v] assms by (auto simp: PutUint64Holding_def)
  then have "Uint64Holding di I h s = Ret (h, v, ExceptionNone)"
    using assms by (simp add: get_numbers wrote_table join_upd_range)
  with h show "\<exists>dm'. wrote_holding (PutUint64Holding di I dm s v) dm s (words_of di 4 v) dm' \<and>
      PutFloat64Holding di I dm s (Float64frombits v) = Ret (dm', ExceptionNone) \<and>
      Uint64Holding di I dm' s = Ret (dm', v, ExceptionNone) \<and>
      Int64Holding di I dm' s = Ret (dm', sint v, ExceptionNone) \<and>
      Float64Holding di I dm' s = Ret (dm', Float64frombits v, ExceptionNone)"
    by (auto simp: Int64Holding_def Float64Holding_def PutFloat64Holding_def wrote_holding_def)
  have put: "\<exists>dm'. wrote_inputs (PutUint64Input di I m s v) m s (words_of di 4 v) dm'" if "dm_ok m" for m
    using put_inputs [of m s 4 di I v] that assms by (auto simp: PutUint64Input_def)
  have get: "Uint64Input di I m s = Ret (m, v, ExceptionNone)"
    if "wrote_inputs r dm s (words_of di 4 v) m" for r m
    using that assms by (simp add: get_numbers wrote_table join_upd_range)
  show "\<exists>dm'. wrote_inputs (PutUint64Input di I dm s v) dm s (words_of di 4 v) dm' \<and>
      Uint64Input di I dm' s = Ret (dm', v, ExceptionNone) \<and>
      Int64Input di I dm' s = Ret (dm', sint v, ExceptionNone)"
    using put [OF assms(1)] get by (auto simp: Int64Input_def)
  obtain m where "wrote_inputs (PutUint64Input di I (unlocked dm) s v) (unlocked dm) s (words_of di 4 v) m"
    using put [of "unlocked dm"] assms by auto
  then have "wrote_inputs (PutFloat64Input di I dm s (Float64frombits v)) dm s (words_of di 4 v)
      (relock dm m)"
    using relock_wrote_inputs [of _ dm] assms by (simp add: PutFloat64Input_def)
  with get show "\<exists>dm'. wrote_inputs (PutFloat64Input di I dm s (Float64frombits v)) dm s (words_of di 4 v)
      dm' \<and> Float64Input di I dm' s = Ret (dm', Float64frombits v, ExceptionNone)"
    by (fastforce simp: Float64Input_def)
qed

text \<open>The registers at the end of the table, on a locked model, most significant word first.\<close>

theorem uint64_roundtrip_witness:
  "\<exists>dm'. wrote_holding (PutUint64Holding \<lparr>badFloat = Float32frombits 0, mswFirst = True\<rparr> noTables freshModel 121
      0x0123456789abcdef) freshModel 121 [0x0123, 0x4567, 0x89ab, 0xcdef] dm' \<and>
    Uint64Holding \<lparr>badFloat = Float32frombits 0, mswFirst = True\<rparr> noTables dm' 121 =
      Ret (dm', 0x0123456789abcdef, ExceptionNone)"
proof -
  have words: "words_of \<lparr>badFloat = Float32frombits 0, mswFirst = True\<rparr> 4 0x0123456789abcdef =
      [0x0123, 0x4567, 0x89ab, 0xcdef]"
    by (simp add: words_of_def upt_words)
  show ?thesis
    using uint64_roundtrip [of freshModel 121 "\<lparr>badFloat = Float32frombits 0, mswFirst = True\<rparr>" noTables
        "0x0123456789abcdef"] unfolding words by auto
qed

text \<open>
  C29. A 32-bit number stored in two holding or input registers, in either word order, changes only
  those registers and is read back as the same unsigned, signed and floating-point number.
\<close>

theorem uint32_roundtrip:
  assumes "dm_ok dm" and "0 \<le> s" and "s + 2 \<le> 125"
  shows "(\<exists>dm'. wrote_holding (PutUint32Holding di I dm s v) dm s (words_of di 2 (ucast v)) dm' \<and>
      PutFloat32Holding di I dm s (Float32frombits v) = Ret (dm', ExceptionNone) \<and>
      Uint32Holding di I dm' s = Ret (dm', v, ExceptionNone) \<and>
      Int32Holding di I dm' s = Ret (dm', sint v, ExceptionNone) \<and>
      Float32Holding di I dm' s = Ret (dm', Float32frombits v, ExceptionNone)) \<and>
    (\<exists>dm'. wrote_inputs (PutUint32Input di I dm s v) dm s (words_of di 2 (ucast v)) dm' \<and>
      PutFloat32Input di I dm s (Float32frombits v) = Ret (dm', ExceptionNone) \<and>
      Uint32Input di I dm' s = Ret (dm', v, ExceptionNone) \<and>
      Int32Input di I dm' s = Ret (dm', sint v, ExceptionNone) \<and>
      Float32Input di I dm' s = Ret (dm', Float32frombits v, ExceptionNone))"
proof -
  obtain h where h: "wrote_holding (PutUint32Holding di I dm s v) dm s (words_of di 2 (ucast v)) h"
    using put_holding [of dm s 2 di I "ucast v"] assms by (auto simp: PutUint32Holding_def)
  then have "Uint32Holding di I h s = Ret (h, v, ExceptionNone)"
    using assms by (simp add: get_numbers32 wrote_table join_upd_range)
  moreover obtain m where m: "wrote_inputs (PutUint32Input di I dm s v) dm s (words_of di 2 (ucast v)) m"
    using put_inputs [of dm s 2 di I "ucast v"] assms by (auto simp: PutUint32Input_def)
  then have "Uint32Input di I m s = Ret (m, v, ExceptionNone)"
    using assms by (simp add: get_numbers32 wrote_table join_upd_range)
  ultimately show ?thesis using h m
    by (auto simp: Int32Holding_def Float32Holding_def PutFloat32Holding_def wrote_holding_def
        Int32Input_def Float32Input_def PutFloat32Input_def wrote_inputs_def)
qed

theorem uint32_roundtrip_witness:
  "\<exists>dm'. wrote_inputs (PutUint32Input \<lparr>badFloat = Float32frombits 0, mswFirst = False\<rparr> noTables freshModel 0
      0x01234567) freshModel 0 [0x4567, 0x0123] dm' \<and>
    Int32Input \<lparr>badFloat = Float32frombits 0, mswFirst = False\<rparr> noTables dm' 0 = Ret (dm', 0x01234567, ExceptionNone)"
proof -
  have words: "words_of \<lparr>badFloat = Float32frombits 0, mswFirst = False\<rparr> 2 (ucast (0x01234567 :: uint32)) =
      [0x4567, 0x0123]"
    by (simp add: words_of_def upt_words)
  show ?thesis
    using uint32_roundtrip [of freshModel 0 "\<lparr>badFloat = Float32frombits 0, mswFirst = False\<rparr>" noTables
        "0x01234567"] unfolding words by auto
qed

text \<open>
  A store that fails: the words before the end of the table, of 125 registers, are stored, none for a
  negative index, and the illegal address is reported.
\<close>

definition part_holding :: "('s DataModel \<times> Exception) outcome \<Rightarrow> 's DataModel \<Rightarrow> int \<Rightarrow> uint16 list \<Rightarrow> bool" where
  "part_holding r dm s ws \<longleftrightarrow> (\<exists>dm'. r = Ret (dm', ExceptionIllegalDataAddr) \<and> dm_ok dm' \<and>
     bank_of dm' = (bank_of dm)\<lparr>bHolding := upd_range (holding dm) s (take (if s < 0 then 0 else nat (125 - s)) ws)\<rparr>)"

definition part_inputs :: "('s DataModel \<times> Exception) outcome \<Rightarrow> 's DataModel \<Rightarrow> int \<Rightarrow> uint16 list \<Rightarrow> bool" where
  "part_inputs r dm s ws \<longleftrightarrow> (\<exists>dm'. r = Ret (dm', ExceptionIllegalDataAddr) \<and> dm_ok dm' \<and>
     bank_of dm' = (bank_of dm)\<lparr>bInputs := upd_range (inputs dm) s (take (if s < 0 then 0 else nat (125 - s)) ws)\<rparr>)"

lemma put_part:
  assumes "dm_ok dm" and "- (2 ^ 63) \<le> s" and "s < 2 ^ 63" and "s < 0 \<or> 125 < s + int n" and "2 \<le> n" and "n \<le> 4"
  shows "part_holding (with_lock dm (\<lambda>dm. putUintReg di (SetHoldingRegister I) dm s n v)) dm s (words_of di n v)"
    and "part_inputs (with_lock dm (\<lambda>dm. putUintReg di (SetInputRegister I) dm s n v)) dm s (words_of di n v)"
  using holding_regs.putUintReg_out [of "unlocked dm" s n di I v] input_regs.putUintReg_out [of "unlocked dm" s n di I v] assms
  by (auto simp: part_holding_def part_inputs_def bank_of_def)

lemma relock_part_inputs:
  assumes "part_inputs r (unlocked dm) s ws" and "dm_ok dm"
  shows "part_inputs (andThen r (\<lambda>(m, r). Ret (relock dm m, r))) dm s ws"
  using assms by (auto simp: part_inputs_def bank_of_def)

lemma get_part:
  assumes "dm_ok dm" and "- (2 ^ 63) \<le> s" and "s < 2 ^ 63" and "s < 0 \<or> 125 < s + int n" and "2 \<le> n" and "n \<le> 4"
  shows "uintReg di (GetHoldingRegister I) (unlocked dm) s n = Ret (unlocked dm, 0, ExceptionIllegalDataAddr)"
    and "uintReg di (GetInputRegister I) (unlocked dm) s n = Ret (unlocked dm, 0, ExceptionIllegalDataAddr)"
  using holding_regs.uintReg_out [of "unlocked dm" s n di I] input_regs.uintReg_out [of "unlocked dm" s n di I] assms
  by auto

text \<open>
  C30. A number of 16, 32 or 64 bits whose registers are not all in the table, at any index a Go \<open>int\<close> can
  have, in either word order.  Every method that reads it from the holding or the input registers
  reports the illegal address and changes nothing; it gives 0 for an integer and for a float the value
  \<open>badFloat\<close> of the interpreter, a \<open>float32\<close>, widened for a \<open>float64\<close>.  Every method that stores it reports the
  same exception after it has stored the words that do fit, so a failed store is not undone.
\<close>

theorem number_out_of_range:
  assumes "dm_ok dm" and "- (2 ^ 63) \<le> s" and "s < 2 ^ 63"
  shows "(s < 0 \<or> 125 < s + 1 \<longrightarrow>
      Int16Holding di I dm s = Ret (dm, 0, ExceptionIllegalDataAddr) \<and>
      Int16Input di I dm s = Ret (dm, 0, ExceptionIllegalDataAddr)) \<and>
    (s < 0 \<or> 125 < s + 2 \<longrightarrow>
      Uint32Holding di I dm s = Ret (dm, 0, ExceptionIllegalDataAddr) \<and>
      Uint32Input di I dm s = Ret (dm, 0, ExceptionIllegalDataAddr) \<and>
      Int32Holding di I dm s = Ret (dm, 0, ExceptionIllegalDataAddr) \<and>
      Int32Input di I dm s = Ret (dm, 0, ExceptionIllegalDataAddr) \<and>
      Float32Holding di I dm s = Ret (dm, badFloat di, ExceptionIllegalDataAddr) \<and>
      Float32Input di I dm s = Ret (dm, badFloat di, ExceptionIllegalDataAddr) \<and>
      part_holding (PutUint32Holding di I dm s u) dm s (words_of di 2 (ucast u)) \<and>
      part_inputs (PutUint32Input di I dm s u) dm s (words_of di 2 (ucast u)) \<and>
      part_holding (PutFloat32Holding di I dm s f) dm s (words_of di 2 (ucast (Float32bits f))) \<and>
      part_inputs (PutFloat32Input di I dm s f) dm s (words_of di 2 (ucast (Float32bits f)))) \<and>
    (s < 0 \<or> 125 < s + 4 \<longrightarrow>
      Uint64Holding di I dm s = Ret (dm, 0, ExceptionIllegalDataAddr) \<and>
      Uint64Input di I dm s = Ret (dm, 0, ExceptionIllegalDataAddr) \<and>
      Int64Holding di I dm s = Ret (dm, 0, ExceptionIllegalDataAddr) \<and>
      Int64Input di I dm s = Ret (dm, 0, ExceptionIllegalDataAddr) \<and>
      Float64Holding di I dm s = Ret (dm, widen (badFloat di), ExceptionIllegalDataAddr) \<and>
      Float64Input di I dm s = Ret (dm, widen (badFloat di), ExceptionIllegalDataAddr) \<and>
      part_holding (PutUint64Holding di I dm s v) dm s (words_of di 4 v) \<and>
      part_inputs (PutUint64Input di I dm s v) dm s (words_of di 4 v) \<and>
      part_holding (PutFloat64Holding di I dm s d) dm s (words_of di 4 (Float64bits d)) \<and>
      part_inputs (PutFloat64Input di I dm s d) dm s (words_of di 4 (Float64bits d)))"
  (is "?r16 \<and> ?r32 \<and> ?r64")
proof (intro conjI)
  show ?r16
    using holding.get_out [OF assms(1), of s I] inputs.get_out [OF assms(1), of s I]
    by (auto simp: Int16Holding_def Int16Input_def)
  show ?r32
    using get_part [OF assms, of 2 di I] put_part [OF assms, of 2 di I] assms(1)
    by (simp add: Uint32Holding_def Uint32Input_def Int32Holding_def Int32Input_def Float32Holding_def Float32Input_def
        PutUint32Holding_def PutUint32Input_def PutFloat32Holding_def PutFloat32Input_def)
  have "part_inputs (PutFloat64Input di I dm s d) dm s (words_of di 4 (Float64bits d))" if "s < 0 \<or> 125 < s + 4"
    using that relock_part_inputs [OF put_part(2) [of "unlocked dm" s 4 di I "Float64bits d"]] assms
    by (simp add: PutFloat64Input_def PutUint64Input_def)
  then show ?r64
    using get_part [OF assms, of 4 di I] put_part [OF assms, of 4 di I] assms(1)
    by (simp add: Uint64Holding_def Uint64Input_def Int64Holding_def Int64Input_def Float64Holding_def Float64Input_def
        PutUint64Holding_def PutUint64Input_def PutFloat64Holding_def)
qed

theorem number_out_of_range_witness:
  "part_holding (PutUint64Holding \<lparr>badFloat = Float32frombits 0, mswFirst = False\<rparr> noTables freshModel 123
      0x0123456789abcdef) freshModel 123 [0xcdef, 0x89ab, 0x4567, 0x0123] \<and>
   Float32Input \<lparr>badFloat = Float32frombits 7, mswFirst = False\<rparr> noTables freshModel 124 =
      Ret (freshModel, Float32frombits 7, ExceptionIllegalDataAddr)"
proof
  have words: "words_of \<lparr>badFloat = Float32frombits 0, mswFirst = False\<rparr> 4 0x0123456789abcdef =
      [0xcdef, 0x89ab, 0x4567, 0x0123]"
    by (simp add: words_of_def upt_words)
  show "part_holding (PutUint64Holding \<lparr>badFloat = Float32frombits 0, mswFirst = False\<rparr> noTables freshModel 123
      0x0123456789abcdef) freshModel 123 [0xcdef, 0x89ab, 0x4567, 0x0123]"
    using number_out_of_range [of freshModel 123 "\<lparr>badFloat = Float32frombits 0, mswFirst = False\<rparr>" noTables]
    unfolding words [symmetric] by simp
  show "Float32Input \<lparr>badFloat = Float32frombits 7, mswFirst = False\<rparr> noTables freshModel 124 =
      Ret (freshModel, Float32frombits 7, ExceptionIllegalDataAddr)"
    using number_out_of_range [of freshModel 124 "\<lparr>badFloat = Float32frombits 7, mswFirst = False\<rparr>" noTables] by simp
qed

text \<open>
  The value for a failed float is not always the one configured: 0.1 is stored as a \<open>float32\<close> and comes
  back from the 64-bit methods as another \<open>float64\<close>.
\<close>

lemma bad_float_rounded:
  "widen (badFloat (fst (NewDataInterpreter \<lparr>BadFloat = Float64frombits 0x3fb999999999999a, MostSignificantWordFirst = True\<rparr>))) =
    Float64frombits 0x3fb99999a0000000"
  by (simp add: NewDataInterpreter_def narrow_def widen_def Let_def)

lemma read_bytes_back:
  assumes "f = upd_range g s (bytes_regs data old)" and "length dst = length data"
  shows "take (length dst) (be_bytes (map (\<lambda>i. f (s + int i)) [0..<(length dst + 1) div 2])) = data"
proof -
  have "map (\<lambda>i. f (s + int i)) [0..<(length dst + 1) div 2] = bytes_regs data old"
    using assms by (intro nth_equalityI) (auto simp: upd_range_def)
  then show ?thesis using assms(2) be_bytes_bytes_regs [of data old] by simp
qed

text \<open>
  C31. A byte string written to the holding or input registers is packed big endian, an odd last byte
  into the high half of its register without changing the low half, nothing else changes, and reading
  the same number of bytes gives the string back.
\<close>

theorem bytes_roundtrip:
  assumes "dm_ok dm" and "0 \<le> s" and "s + int ((length data + 1) div 2) \<le> 125" and "length dst = length data"
  shows "(\<exists>dm'. WriteBytesHolding I dm data s = Ret (dm', length data, ExceptionNone) \<and> dm_ok dm' \<and>
      bank_of dm' = (bank_of dm)\<lparr>bHolding :=
        upd_range (holding dm) s (bytes_regs data (holding dm (s + int (length data div 2))))\<rparr> \<and>
      ReadBytesHolding I dm' dst s = Ret (dm', data, length data, ExceptionNone)) \<and>
    (\<exists>dm'. WriteBytesInput I dm data s = Ret (dm', length data, ExceptionNone) \<and> dm_ok dm' \<and>
      bank_of dm' = (bank_of dm)\<lparr>bInputs :=
        upd_range (inputs dm) s (bytes_regs data (inputs dm (s + int (length data div 2))))\<rparr> \<and>
      ReadBytesInput I dm' dst s = Ret (dm', data, length data, ExceptionNone))"
proof -
  let ?old = "\<lambda>f. f (s + int (length data div 2))"
  obtain h where h: "WriteBytesHolding I dm data s = Ret (relock dm h, length data, ExceptionNone)" "dm_ok h"
      "holding h = upd_range (holding dm) s (bytes_regs data (?old (holding dm)))"
      "(inputs h, coil h, discrete h) = (inputs dm, coil dm, discrete dm)"
    using holding_regs.writeBytes_ok [of "unlocked dm" s data I] assms by (auto simp: WriteBytesHolding_def)
  have "ReadBytesHolding I (relock dm h) dst s = Ret (relock dm h, data, length data, ExceptionNone)"
    using holding_regs.readBytes_ok [of "unlocked (relock dm h)" s dst I] read_bytes_back [OF h(3) assms(4)] h(2) assms
    by (simp add: ReadBytesHolding_def)
  moreover obtain k where k: "WriteBytesInput I dm data s = Ret (relock dm k, length data, ExceptionNone)" "dm_ok k"
      "inputs k = upd_range (inputs dm) s (bytes_regs data (?old (inputs dm)))"
      "(holding k, coil k, discrete k) = (holding dm, coil dm, discrete dm)"
    using input_regs.writeBytes_ok [of "unlocked dm" s data I] assms by (auto simp: WriteBytesInput_def)
  have "ReadBytesInput I (relock dm k) dst s = Ret (relock dm k, data, length data, ExceptionNone)"
    using input_regs.readBytes_ok [of "unlocked (relock dm k)" s dst I] read_bytes_back [OF k(3) assms(4)] k(2) assms
    by (simp add: ReadBytesInput_def)
  ultimately show ?thesis using h k by (auto simp: bank_of_def)
qed

theorem bytes_roundtrip_witness:
  "\<exists>dm'. WriteBytesHolding noTables freshModel [1, 2, 3] 123 = Ret (dm', 3, ExceptionNone) \<and>
    bank_of dm' = (bank_of freshModel)\<lparr>bHolding := upd_range (holding freshModel) 123 [0x0102, 0x0300]\<rparr> \<and>
    ReadBytesHolding noTables dm' [0, 0, 0] 123 = Ret (dm', [1, 2, 3], 3, ExceptionNone)"
proof -
  have regs: "bytes_regs [1, 2, 3] (holding freshModel (123 + int (length [1, 2, 3 :: byte] div 2))) = [0x0102, 0x0300]"
    by (simp add: bytes_regs_def data_regs_def holding_def zeroBlockedModel_def lo8_def be16_def)
  show ?thesis
    using bytes_roundtrip [of freshModel 123 "[1, 2, 3]" "[0, 0, 0]" noTables, unfolded regs] by auto
qed

text \<open>
  C32. A slice of registers written to the holding or input registers changes those registers only,
  and reading a slice of the same length gives it back.
\<close>

theorem uint16_slice_roundtrip:
  assumes "dm_ok dm" and "0 \<le> s" and "s + int (length data) \<le> 125" and "length dst = length data"
  shows "(\<exists>dm'. WriteUint16Holding I dm data s = Ret (dm', length data, ExceptionNone) \<and> dm_ok dm' \<and>
      bank_of dm' = (bank_of dm)\<lparr>bHolding := upd_range (holding dm) s data\<rparr> \<and>
      ReadUint16Holding I dm' dst s = Ret (dm', data, length data, ExceptionNone)) \<and>
    (\<exists>dm'. WriteUint16Input I dm data s = Ret (dm', length data, ExceptionNone) \<and> dm_ok dm' \<and>
      bank_of dm' = (bank_of dm)\<lparr>bInputs := upd_range (inputs dm) s data\<rparr> \<and>
      ReadUint16Input I dm' dst s = Ret (dm', data, length data, ExceptionNone))"
proof -
  have read_all: "map (\<lambda>k. upd_range f s data (s + int k)) [0..<length data] = data" for f :: "int \<Rightarrow> uint16"
    by (rule nth_equalityI) (auto simp: upd_range_def)
  obtain h where h: "WriteUint16Holding I dm data s = Ret (relock dm h, length data, ExceptionNone)" "dm_ok h"
      "holding h = upd_range (holding dm) s data" "(inputs h, coil h, discrete h) = (inputs dm, coil dm, discrete dm)"
    using holding_regs.write16Loop_ok [of "unlocked dm" s data 0 "length data" I] assms
    by (auto simp: WriteUint16Holding_def write16_def)
  have "ReadUint16Holding I (relock dm h) dst s = Ret (relock dm h, data, length data, ExceptionNone)"
    using holding_regs.read16Loop_ok [of "unlocked (relock dm h)" s dst 0 "length dst" I] h(2,3) assms read_all
    by (simp add: ReadUint16Holding_def read16_def)
  moreover obtain k where k: "WriteUint16Input I dm data s = Ret (relock dm k, length data, ExceptionNone)" "dm_ok k"
      "inputs k = upd_range (inputs dm) s data" "(holding k, coil k, discrete k) = (holding dm, coil dm, discrete dm)"
    using input_regs.write16Loop_ok [of "unlocked dm" s data 0 "length data" I] assms
    by (auto simp: WriteUint16Input_def write16_def)
  have "ReadUint16Input I (relock dm k) dst s = Ret (relock dm k, data, length data, ExceptionNone)"
    using input_regs.read16Loop_ok [of "unlocked (relock dm k)" s dst 0 "length dst" I] k(2,3) assms read_all
    by (simp add: ReadUint16Input_def read16_def)
  ultimately show ?thesis using h k by (auto simp: bank_of_def)
qed

theorem uint16_slice_roundtrip_witness:
  "\<exists>dm'. WriteUint16Input noTables freshModel [7, 8] 3 = Ret (dm', 2, ExceptionNone) \<and>
    ReadUint16Input noTables dm' [0, 0] 3 = Ret (dm', [7, 8], 2, ExceptionNone)"
  using uint16_slice_roundtrip [of freshModel 3 "[7, 8]" "[0, 0]" noTables] by auto

end
