(* ===== verification/Crc.thy ===== *)
theory Crc
  imports Prelude
begin

text \<open>
  \<open>generateCRC\<close> and \<open>generateLRC\<close> of \<open>src/modbusrtu/rtustate.go\<close>: the checksums of the serial
  line.  Appended low byte first the CRC makes the checksum of the whole packet zero.  The inner loop is
  linear and injective, from which \<open>Crc_Polynomial\<close> gets the detection of errors.
\<close>

section \<open>The checksums\<close>

text \<open>The inner loop, \<open>n\<close> turns from the end.\<close>

fun crcBits :: "nat \<Rightarrow> uint16 \<Rightarrow> uint16" where
  "crcBits 0 crc = crc"
| "crcBits (Suc n) crc =
     crcBits n (if crc AND 1 \<noteq> 0 then drop_bit 1 crc XOR 0xA001 else drop_bit 1 crc)"

fun crcLoop :: "uint16 \<Rightarrow> byte list \<Rightarrow> uint16" where
  "crcLoop crc [] = crc"
| "crcLoop crc (b # bs) = crcLoop (crcBits 8 (crc XOR ucast b)) bs"

definition generateCRC :: "byte list \<Rightarrow> uint16" where
  "generateCRC b = crcLoop 0xFFFF b"

fun lrcLoop :: "uint8 \<Rightarrow> byte list \<Rightarrow> uint8" where
  "lrcLoop lrc [] = lrc"
| "lrcLoop lrc (b # bs) = lrcLoop (lrc + b) bs"

text \<open>\<open>uint8(-int8(lrc))\<close>: negation at the signed type.\<close>

definition generateLRC :: "byte list \<Rightarrow> uint8" where
  "generateLRC b = word_of_int (- sint (lrcLoop 0 b))"

section \<open>The register of the CRC\<close>

abbreviation crcStep :: "uint16 \<Rightarrow> uint16" where
  "crcStep crc \<equiv> (if crc AND 1 \<noteq> 0 then drop_bit 1 crc XOR 0xA001 else drop_bit 1 crc)"

lemma and_1_bit: "crc AND 1 \<noteq> 0 \<longleftrightarrow> bit (crc :: uint16) 0"
  by (simp add: bit_0 and_one_eq odd_iff_mod_2_eq_one)

lemma crcBits_add: "crcBits (m + n) c = crcBits n (crcBits m c)"
  by (induction m arbitrary: c) auto

lemma crcStep_xor: "crcStep (c XOR d) = crcStep c XOR crcStep d"
  unfolding and_1_bit bit_xor_iff drop_bit_xor
  by (auto simp: xor.assoc xor.left_commute xor.commute)

lemma crcBits_xor: "crcBits n (c XOR d) = crcBits n c XOR crcBits n d"
proof (induction n arbitrary: c d)
  case 0
  then show ?case by simp
next
  case (Suc n)
  have "crcBits (Suc n) (c XOR d) = crcBits n (crcStep (c XOR d))" by (simp only: crcBits.simps)
  also have "\<dots> = crcBits n (crcStep c) XOR crcBits n (crcStep d)" by (simp only: crcStep_xor Suc.IH)
  finally show ?case by (simp only: crcBits.simps)
qed

lemma crcBits_0 [simp]: "crcBits n 0 = 0"
  by (induction n) auto

lemma crcStep_eq_0: "crcStep c = 0 \<Longrightarrow> c = 0"
proof -
  assume z: "crcStep c = 0"
  have "\<not> bit c 0"
  proof
    assume "bit c 0"
    with z have "bit (drop_bit 1 c XOR 0xA001) 15 = bit (0 :: uint16) 15" by (simp only: and_1_bit) simp
    then show False by (auto simp: bit_simps dest: bit_imp_le_length)
  qed
  with z have d: "drop_bit 1 c = 0" by (simp only: and_1_bit if_False)
  show "c = 0"
  proof (rule bit_word_eqI)
    fix n
    show "bit c n = bit 0 n"
    proof (cases n)
      case (Suc k)
      have "bit (drop_bit 1 c) k = bit (0 :: uint16) k" by (simp only: d)
      then show ?thesis by (simp add: Suc bit_simps)
    qed (use \<open>\<not> bit c 0\<close> in simp)
  qed
qed

lemma crcBits_eq_0: "crcBits n c = 0 \<Longrightarrow> c = 0"
  by (induction n arbitrary: c) (auto dest: crcStep_eq_0 simp only: crcBits.simps)

lemma crcBits_inject: "crcBits n c = crcBits n d \<longleftrightarrow> c = d"
proof
  assume "crcBits n c = crcBits n d"
  then have "crcBits n (c XOR d) = 0" by (simp add: crcBits_xor)
  then have "c XOR d = 0" by (rule crcBits_eq_0)
  then have "(c XOR d) XOR d = d" by simp
  then show "c = d" by (simp add: xor.assoc)
qed simp

lemma crcBits_shift: "take_bit n c = 0 \<Longrightarrow> crcBits n c = drop_bit n c"
proof (induction n arbitrary: c)
  case 0
  then show ?case by simp
next
  case (Suc n)
  have low: "\<not> bit c k" if "k < Suc n" for k
    using arg_cong [OF Suc.prems, of "\<lambda>w. bit w k"] that by (simp add: bit_take_bit_iff)
  have "take_bit n (drop_bit 1 c) = 0"
    using low by (intro bit_word_eqI) (auto simp: bit_simps)
  then have "crcBits n (drop_bit 1 c) = drop_bit n (drop_bit 1 c)" by (rule Suc.IH)
  moreover have "\<not> bit c 0" using low by simp
  ultimately show ?case by (simp add: and_1_bit)
qed

section \<open>The checksum of a packet\<close>

lemma xor_left_cancel: "c XOR a = c XOR b \<longleftrightarrow> a = b" for a b c :: uint16
proof
  assume "c XOR a = c XOR b"
  then have "c XOR (c XOR a) = c XOR (c XOR b)" by (rule arg_cong)
  then show "a = b" by (simp flip: xor.assoc)
qed simp

lemma crcLoop_append: "crcLoop c (xs @ ys) = crcLoop (crcLoop c xs) ys"
  by (induction xs arbitrary: c) auto

lemma crcLoop_inject: "crcLoop c bs = crcLoop d bs \<longleftrightarrow> c = d"
proof (induction bs arbitrary: c d)
  case Nil
  then show ?case by simp
next
  case (Cons b bs)
  have "c XOR ucast b = d XOR ucast b \<longleftrightarrow> c = d"
    using xor_left_cancel [of "ucast b" c d] by (simp add: xor.commute)
  then show ?case by (simp add: Cons.IH crcBits_inject)
qed

text \<open>Two bytes enter the register as one word.\<close>

lemma crcLoop_two: "crcLoop c [x, y] = crcBits 16 (c XOR be16 y x)"
proof -
  have "take_bit 8 (push_bit 8 (ucast y) :: uint16) = 0"
    by (rule bit_word_eqI) (auto simp: bit_simps)
  then have "crcBits 8 (push_bit 8 (ucast y)) = drop_bit 8 (push_bit 8 (ucast y))"
    by (rule crcBits_shift)
  also have "\<dots> = ucast y"
    by (rule bit_word_eqI) (auto simp: bit_simps dest: bit_imp_le_length)
  finally have y: "crcBits 8 (push_bit 8 (ucast y)) = ucast y" .
  have "be16 y x = ucast x XOR push_bit 8 (ucast y)"
    by (rule bit_word_eqI) (auto simp: be16_def bit_simps dest: bit_imp_le_length)
  then have "crcBits 16 (c XOR be16 y x) = crcBits 8 (crcBits 8 (c XOR ucast x) XOR ucast y)"
    using crcBits_add [of 8 8] by (simp add: crcBits_xor y flip: xor.assoc)
  then show ?thesis by simp
qed

text \<open>
  The CRC sent low byte first makes the checksum of the whole packet zero, from every packet.
\<close>

theorem crc_residue:
  "generateCRC (b @ [lo8 (generateCRC b), hi8 (generateCRC b)]) = 0"
  by (simp add: generateCRC_def crcLoop_append crcLoop_two del: crcLoop.simps(2))

lemma lrcLoop_sum: "lrcLoop l b = l + sum_list b"
  by (induction b arbitrary: l) (auto simp: add.assoc)

lemma generateLRC_eq: "generateLRC b = - sum_list b"
proof -
  have "word_of_int (- sint w) = - w" for w :: uint8
    by (simp only: of_int_minus of_int_sint scast_id)
  then show ?thesis by (simp only: generateLRC_def lrcLoop_sum add_0_left)
qed

text \<open>
  The LRC is the two's complement of the sum of the bytes: added to them it gives zero, and it
  is the value \<open>(0xff - lrc) + 1\<close> the comment of the function names.
\<close>

theorem lrc_complement:
  "sum_list b + generateLRC b = 0 \<and> generateLRC b = (0xff - sum_list b) + 1"
proof -
  have ff: "(0xff :: uint8) = - 1" by simp
  show ?thesis unfolding generateLRC_eq ff by (simp only: algebra_simps) simp
qed

end
