(* ===== verification/Crc_Polynomial.thy ===== *)
theory Crc_Polynomial
  imports Crc
begin

text \<open>
  The CRC as its definition: the remainder of the polynomial of the message by the generator
  \<open>x^16 + x^15 + x^2 + 1\<close>.  A polynomial is the list of its coefficients, highest first; the bits of a byte and of
  the checksum are taken least significant first, as the serial line sends them.  Then the detection of
  error bursts, on the bits of a packet in that order.
\<close>

section \<open>Polynomial division\<close>

definition generator :: "bool list" where
  "generator = [True, False, False, False, False, False, False, False, False, False, False, False, False, True, False, True]"

text \<open>Adding \<open>q\<close> to the leading coefficients of \<open>p\<close>.\<close>

definition add_front :: "bool list \<Rightarrow> bool list \<Rightarrow> bool list" where
  "add_front p q = map2 (\<noteq>) (take (length q) p) q @ drop (length q) p"

lemma length_add_front [simp]: "length (add_front p q) = length p"
  by (simp add: add_front_def)

text \<open>
  The remainder: a leading coefficient of \<open>x^16\<close> or more is removed by subtracting a multiple of the generator,
  whose own leading coefficient is left out of the list \<open>generator\<close>.
\<close>

function poly_mod :: "bool list \<Rightarrow> bool list" where
  "poly_mod p = (if length p \<le> 16 then p else poly_mod (if hd p then add_front (tl p) generator else tl p))"
  by pat_completeness auto
termination by (relation "measure length") auto

declare poly_mod.simps [simp del]

text \<open>The message followed by sixteen zeros, its first sixteen coefficients inverted by the initial value.\<close>

definition message :: "byte list \<Rightarrow> bool list" where
  "message b = add_front (concat (map (\<lambda>x. map (bit x) [0..<8]) b) @ replicate 16 False) (replicate 16 True)"

definition coeffs :: "uint16 \<Rightarrow> bool list" where
  "coeffs c = map (bit c) [0..<16]"

section \<open>Lemmas\<close>

lemma length_coeffs [simp]: "length (coeffs c) = 16"
  by (simp add: coeffs_def)

lemma nth_add_front: "i < length p \<Longrightarrow> add_front p q ! i = (if i < length q then p ! i \<noteq> q ! i else p ! i)"
  by (auto simp: add_front_def nth_append)

lemma add_front_add:
  assumes "Suc (length q1) = length q2" and "length q2 \<le> length r"
  shows "add_front (add_front r q1) q2 = add_front r (map2 (\<noteq>) (q1 @ [False]) q2)"
proof (rule nth_equalityI)
  fix i assume "i < length (add_front (add_front r q1) q2)"
  then show "add_front (add_front r q1) q2 ! i = add_front r (map2 (\<noteq>) (q1 @ [False]) q2) ! i"
    using assms by (cases "i < length q1") (auto simp: nth_add_front nth_append)
qed simp

lemma add_front_zero:
  assumes "length q1 < length r"
  shows "add_front r (q1 @ [False]) = add_front r q1"
proof (rule nth_equalityI)
  fix i assume "i < length (add_front r (q1 @ [False]))"
  then show "add_front r (q1 @ [False]) ! i = add_front r q1 ! i"
    using assms by (cases "i < length q1") (auto simp: nth_add_front nth_append)
qed simp

text \<open>One turn of the inner loop on one bit of the message.\<close>

abbreviation feed :: "bool \<Rightarrow> uint16 \<Rightarrow> uint16" where
  "feed b c \<equiv> crcStep (c XOR of_bool b)"

lemma crcBits_feed:
  assumes "take_bit k x = x"
  shows "crcBits k (c XOR x) = fold feed (map (bit x) [0..<k]) c"
  using assms
proof (induction k arbitrary: c x)
  case 0
  then show ?case by simp
next
  case (Suc k)
  define y where "y = x XOR of_bool (bit x 0)"
  have bits: "bit x n \<Longrightarrow> n < Suc k" for n
    using arg_cong [OF Suc.prems, of "\<lambda>w. bit w n"] by (simp add: bit_take_bit_iff)
  have x: "x = of_bool (bit x 0) XOR y"
    unfolding y_def by (simp add: xor.left_commute [of _ x])
  have y: "drop_bit 1 y = drop_bit 1 x" "\<not> bit y 0"
    unfolding y_def by (cases "bit x 0"; simp) (simp only: bit_xor_iff bit_of_bool_iff, simp)
  have "take_bit k (drop_bit 1 x) = drop_bit 1 x"
    by (rule bit_word_eqI) (use bits in \<open>auto simp: bit_simps\<close>)
  note IH = Suc.IH [OF this, of "feed (bit x 0) c"]
  have "c XOR x = (c XOR of_bool (bit x 0)) XOR y" using x by (simp only: xor.assoc)
  then have "crcStep (c XOR x) = crcStep ((c XOR of_bool (bit x 0)) XOR y)" by (simp only:)
  also have "\<dots> = feed (bit x 0) c XOR crcStep y" by (rule crcStep_xor)
  also have "crcStep y = drop_bit 1 x" using y by (simp only: and_1_bit if_False)
  finally have "crcBits (Suc k) (c XOR x) = crcBits k (feed (bit x 0) c XOR drop_bit 1 x)" by (simp only: crcBits.simps)
  moreover have "map (bit x) [0..<Suc k] = bit x 0 # map (bit (drop_bit 1 x)) [0..<k]"
    by (simp add: upt_conv_Cons map_Suc_upt [symmetric] bit_drop_bit_eq comp_def del: upt_Suc)
  ultimately show ?case using IH by (simp only: fold_simps)
qed

lemma nth_coeffs: "i < 16 \<Longrightarrow> coeffs c ! i = bit c i"
  by (simp add: coeffs_def)

lemma generator_bits: "generator = coeffs 0xA001"
  by (simp add: generator_def coeffs_def upt_rec)

lemma coeffs_feed:
  "coeffs (feed b c) = map2 (\<noteq>) (tl (coeffs c) @ [False]) (if b \<noteq> bit c 0 then generator else replicate 16 False)"
proof (rule nth_equalityI)
  fix i assume "i < length (coeffs (feed b c))"
  then have i: "i < 16" by simp
  have t: "bit (c XOR of_bool b) 0 \<longleftrightarrow> b \<noteq> bit c 0" by (auto simp only: bit_xor_iff bit_of_bool_iff)
  have s: "bit (drop_bit 1 (c XOR of_bool b)) i = (tl (coeffs c) @ [False]) ! i"
    using i by (auto simp: bit_simps nth_append nth_tl nth_coeffs dest: bit_imp_le_length)
  show "coeffs (feed b c) ! i = map2 (\<noteq>) (tl (coeffs c) @ [False]) (if b \<noteq> bit c 0 then generator else replicate 16 False) ! i"
    using i s unfolding and_1_bit t by (auto simp: nth_coeffs generator_bits bit_xor_iff)
qed (simp add: generator_bits)

lemma poly_mod_feed:
  "poly_mod (add_front (m @ replicate 16 False) (coeffs c)) = coeffs (fold feed m c)"
proof (induction m arbitrary: c)
  case Nil
  have "add_front (replicate 16 False) (coeffs c) = coeffs c"
    by (rule nth_equalityI) (auto simp: nth_add_front)
  then show ?case by (simp add: poly_mod.simps)
next
  case (Cons b m)
  let ?r = "m @ replicate 16 False"
  obtain c0 cs where cs: "coeffs c = c0 # cs" "length cs = 15" "c0 = bit c 0" by (auto simp: coeffs_def upt_rec)
  have "add_front ((b # m) @ replicate 16 False) (coeffs c) = (b \<noteq> c0) # add_front ?r cs"
    by (simp add: add_front_def cs(1))
  then have "poly_mod (add_front ((b # m) @ replicate 16 False) (coeffs c)) =
      poly_mod (if b \<noteq> c0 then add_front (add_front ?r cs) generator else add_front ?r cs)"
    by (simp only:) (subst poly_mod.simps, simp)
  also have "(if b \<noteq> c0 then add_front (add_front ?r cs) generator else add_front ?r cs) = add_front ?r (coeffs (feed b c))"
  proof -
    have "map2 (\<noteq>) (cs @ [False]) (replicate 16 False) = cs @ [False]"
      using cs(2) by (intro nth_equalityI) (auto simp: nth_append)
    then show ?thesis
      using add_front_add [of cs generator ?r] add_front_zero [of cs ?r] cs
      by (auto simp: coeffs_feed generator_def simp del: crcBits.simps)
  qed
  finally show ?case using Cons.IH [of "feed b c"] by simp
qed

lemma crcLoop_feed: "crcLoop c b = fold feed (concat (map (\<lambda>x. map (bit x) [0..<8]) b)) c"
proof (induction b arbitrary: c)
  case Nil
  then show ?case by simp
next
  case (Cons x b)
  have "take_bit 8 (ucast x :: uint16) = ucast x"
    by (rule bit_word_eqI) (auto simp: bit_simps dest: bit_imp_le_length)
  moreover have "map (bit (ucast x :: uint16)) [0..<8] = map (bit x) [0..<8]" by (auto simp: bit_simps)
  ultimately have "crcBits 8 (c XOR ucast x) = fold feed (map (bit x) [0..<8]) c"
    using crcBits_feed [of 8 "ucast x" c] by (simp only:)
  then show ?case
    using Cons.IH by (simp only: crcLoop.simps list.map concat.simps fold_append comp_apply)
qed

section \<open>Bursts\<close>

text \<open>Bit \<open>k\<close> of a packet in the order of the serial line, least significant bit of the first byte first.\<close>

definition line_bit :: "byte list \<Rightarrow> nat \<Rightarrow> bool" where
  "line_bit b k = bit (b ! (k div 8)) (k mod 8)"

definition line_bits :: "byte list \<Rightarrow> bool list" where
  "line_bits b = concat (map (\<lambda>x. map (bit x) [0..<8]) b)"

lemma length_line_bits [simp]: "length (line_bits b) = 8 * length b"
  by (induction b) (auto simp: line_bits_def)

lemma nth_line_bits: "k < 8 * length b \<Longrightarrow> line_bits b ! k = line_bit b k"
proof (induction b arbitrary: k)
  case (Cons x b)
  have "line_bits (x # b) = map (bit x) [0..<8] @ line_bits b" by (simp only: line_bits_def list.map concat.simps)
  moreover have "k = (k - 8) + 8" if "\<not> k < 8" using that by simp
  then have "line_bit (x # b) k = line_bit b (k - 8)" if "\<not> k < 8"
    using that unfolding line_bit_def by (metis div_add_self2 mod_add_self2 nth_Cons_Suc Suc_eq_plus1 zero_neq_numeral)
  ultimately show ?case
    using Cons by (cases "k < 8") (auto simp: nth_append line_bit_def)
qed simp

lemma line_bits_inject:
  assumes "length b = length b'" and "line_bits b = line_bits b'"
  shows "b = b'"
proof (rule nth_equalityI)
  fix i
  assume i: "i < length b"
  have "bit (b ! i) n = bit (b' ! i) n" if "n < 8" for n
    using that i assms nth_line_bits [of "8 * i + n" b] nth_line_bits [of "8 * i + n" b'] by (simp add: line_bit_def)
  then show "b ! i = b' ! i" by (auto intro: bit_word_eqI)
qed (rule assms)

lemma feed_inject: "feed b c = feed b d \<longleftrightarrow> c = d"
  using crcBits_inject [of 1 "c XOR of_bool b" "d XOR of_bool b"] xor_left_cancel [of "of_bool b" c d]
  by (simp only: crcBits.simps One_nat_def xor.commute)

lemma fold_feed_inject: "fold feed m c = fold feed m d \<longleftrightarrow> c = d"
  by (induction m arbitrary: c d) (simp_all only: fold_simps feed_inject)

text \<open>At most sixteen bits enter the register as one word, so that different ones leave it different.\<close>

lemma fold_feed_burst:
  assumes "length u = length v" and "length u \<le> 16" and "fold feed u c = fold feed v c"
  shows "u = v"
proof -
  define word where "word w = (horner_sum of_bool 2 w :: uint16)" for w
  have bits: "bit (word w) n \<longleftrightarrow> n < length w \<and> w ! n" if "length w \<le> 16" for w n
    using that by (auto simp: word_def bit_horner_sum_bit_iff)
  have feed: "crcBits (length w) (c XOR word w) = fold feed w c" if "length w \<le> 16" for w
  proof -
    have "take_bit (length w) (word w) = word w"
      by (rule bit_word_eqI) (auto simp: bit_take_bit_iff bits [OF that])
    moreover have "map (bit (word w)) [0..<length w] = w"
      by (rule nth_equalityI) (auto simp: bits [OF that])
    ultimately show ?thesis using crcBits_feed [of "length w" "word w" c] by (simp only:)
  qed
  have "word u = word v"
    using feed [OF assms(2)] feed [of v] assms crcBits_inject [of "length v" "c XOR word u" "c XOR word v"]
    by (simp add: xor_left_cancel)
  then have "u ! n = v ! n" if "n < length u" for n
    using that assms(1,2) bits [of u n] bits [of v n] by simp
  then show ?thesis using assms(1) by (intro nth_equalityI) auto
qed

section \<open>Properties\<close>

text \<open>
  C12. \<open>generateCRC\<close> computes the CRC of the Modbus serial line: the coefficients of its result are the remainder
  of the message polynomial, with the initial value added and multiplied by \<open>x^16\<close>, by the generator
  \<open>x^16 + x^15 + x^2 + 1\<close>.
\<close>

theorem crc_is_remainder: "coeffs (generateCRC b) = poly_mod (message b)"
proof -
  have "coeffs 0xFFFF = replicate 16 True" by (simp add: coeffs_def upt_rec numeral_eq_Suc)
  then show ?thesis
    using poly_mod_feed [of "concat (map (\<lambda>x. map (bit x) [0..<8]) b)" "0xFFFF"]
    by (simp only: generateCRC_def crcLoop_feed message_def)
qed

text \<open>
  C27. An error burst of up to sixteen bits changes the CRC: two packets of the same length whose bits, in the
  order of the serial line, agree outside sixteen consecutive positions, wherever these lie with respect
  to the byte boundaries, have the same checksum only when they are the same packet.
\<close>

theorem crc_detects_burst:
  assumes "length b = length b'"
    and "\<And>k. k < 8 * length b \<Longrightarrow> k < i \<or> i + 16 \<le> k \<Longrightarrow> line_bit b k = line_bit b' k"
  shows "generateCRC b = generateCRC b' \<longleftrightarrow> b = b'"
proof
  let ?m = "line_bits b" and ?m' = "line_bits b'"
  let ?u = "take 16 (drop i ?m)" and ?v = "take 16 (drop i ?m')"
  have agree: "?m ! k = ?m' ! k" if "k < 8 * length b" "k < i \<or> i + 16 \<le> k" for k
    using assms that by (simp add: nth_line_bits)
  have p: "take i ?m = take i ?m'" using assms(1) agree by (intro nth_equalityI) auto
  have s: "drop (i + 16) ?m = drop (i + 16) ?m'" using assms(1) agree by (intro nth_equalityI) auto
  have split: "fold feed m c = fold feed (drop (i + 16) m) (fold feed (take 16 (drop i m)) (fold feed (take i m) c))" for m c
    using fold_append [of feed "take i m" "take 16 (drop i m) @ drop (i + 16) m"]
      fold_append [of feed "take 16 (drop i m)" "drop (i + 16) m"]
      append_take_drop_id [of 16 "drop i m"] append_take_drop_id [of i m]
    by (simp only: drop_drop add.commute [of i 16] comp_apply)
  assume "generateCRC b = generateCRC b'"
  then have "fold feed ?m 0xFFFF = fold feed ?m' 0xFFFF"
    by (simp only: generateCRC_def crcLoop_feed line_bits_def)
  then have "fold feed ?u (fold feed (take i ?m) 0xFFFF) = fold feed ?v (fold feed (take i ?m) 0xFFFF)"
    unfolding split [of ?m] split [of ?m'] p s by (simp only: fold_feed_inject)
  then have "?u = ?v" using assms(1) by (intro fold_feed_burst) auto
  with p s have "?m = ?m'"
    by (metis append_take_drop_id drop_drop add.commute)
  with assms(1) show "b = b'" by (rule line_bits_inject)
qed simp

theorem crc_detects_burst_witness: "generateCRC [0, 0, 0, 0] \<noteq> generateCRC [0x80, 0xff, 0x7f, 0]"
proof -
  have "\<forall>k \<in> set [0..<32]. k < 7 \<or> 7 + 16 \<le> k \<longrightarrow> line_bit [0, 0, 0, 0] k = line_bit [0x80, 0xff, 0x7f, 0] k"
    by (simp add: upt_rec line_bit_def)
  then have "line_bit [0, 0, 0, 0] k = line_bit [0x80, 0xff, 0x7f, 0] k"
    if "k < 8 * length [0, 0, 0, 0 :: byte]" "k < 7 \<or> 7 + 16 \<le> k" for k
    using that by auto
  from crc_detects_burst [of "[0, 0, 0, 0]" "[0x80, 0xff, 0x7f, 0]" 7, OF _ this] show ?thesis by simp
qed

end
