(* ===== verification/Tx.thy ===== *)
theory Tx
  imports Definitions
begin

text \<open>
  \<open>src/tx.go\<close> without \<open>Request.PutResponse\<close>: the inference of packet lengths, the decoding
  of requests and responses, and the methods of \<open>Tx\<close>, which marshal packets into a byte
  slice.  A method of \<open>Tx\<close> returns the slice after the call, the number of bytes written and
  the error, \<open>None\<close> for nil.
\<close>

section \<open>Packet lengths\<close>

definition InferRequestPacketLength :: "byte list \<Rightarrow> FunctionCode \<times> uint16 \<times> goerror option" where
  "InferRequestPacketLength b =
    (if length b < 1 then (0, 1, Some ErrMissingPacketData)
     else let fc = b ! 0 in
       if fc = FCReadCoils \<or> fc = FCReadDiscreteInputs \<or> fc = FCReadHoldingRegisters \<or>
          fc = FCReadInputRegisters \<or> fc = FCWriteSingleCoil \<or> fc = FCWriteSingleRegister
       then (fc, 5, None)
       else if fc = FCReadExceptionStatus \<or> fc = FCGetComEventCounter \<or> fc = FCGetComEventLog \<or>
          fc = FCReportServerID
       then (fc, 1, None)
       else if fc = FCWriteMultipleCoils \<or> fc = FCWriteMultipleRegisters then
         if length b < 6 then (0, word_of_nat (6 - length b), Some ErrMissingPacketData)
         else (fc, ucast (b ! 5) + 6, None)
       else if fc = FCDiagnostic \<or> fc = FCMaskWriteRegister \<or> fc = FCReadDeviceIdentification \<or>
          fc = FCReadFIFOQueue \<or> fc = FCReadFileRecord \<or> fc = FCReadWriteMultipleRegisters \<or>
          fc = FCWriteFileRecord
       then (fc, 0, Some (ExceptionErr ExceptionIllegalFunction))
       else (fc, 0, Some ErrBadFunctionCode))"

definition InferResponsePacketLength :: "byte list \<Rightarrow> FunctionCode \<times> uint16 \<times> goerror option" where
  "InferResponsePacketLength b =
    (if length b < 1 then (0, 1, Some ErrMissingPacketData)
     else let fc = b ! 0 in
       if fc AND 0x80 \<noteq> 0 then (fc AND NOT 0x80, 2, None)
       else if fc = FCReadCoils \<or> fc = FCReadDiscreteInputs then
         if length b < 2 then (0, word_of_nat (2 - length b), Some ErrMissingPacketData)
         else (fc, ucast (b ! 1) + 2, None)
       else if fc = FCReadHoldingRegisters \<or> fc = FCReadInputRegisters then
         if length b < 2 then (0, word_of_nat (2 - length b), Some ErrMissingPacketData)
         else (fc, 2 + ucast (b ! 1), None)
       else if fc = FCWriteSingleCoil \<or> fc = FCWriteSingleRegister \<or> fc = FCGetComEventCounter \<or>
          fc = FCWriteMultipleCoils \<or> fc = FCWriteMultipleRegisters
       then (fc, 5, None)
       else if fc = FCReadExceptionStatus then (fc, 2, None)
       else if fc = FCDiagnostic then
         if length b < 2 then (0, word_of_nat (2 - length b), Some ErrMissingPacketData)
         else (fc, 3 + ucast (b ! 1), None)
       else if fc = FCGetComEventLog then
         if length b < 2 then (0, word_of_nat (2 - length b), Some ErrMissingPacketData)
         else (fc, 2 + ucast (b ! 1), None)
       else (fc, 0, Some ErrBadFunctionCode))"

section \<open>Requests\<close>

record Request =
  FC :: FunctionCode
  maybeByteCount :: uint8
  maybeAddr :: uint16
  maybeValueQuantity :: uint16

definition zeroRequest :: Request where
  "zeroRequest = \<lparr>FC = 0, maybeByteCount = 0, maybeAddr = 0, maybeValueQuantity = 0\<rparr>"

definition Request_String :: "Request \<Rightarrow> string" where
  "Request_String req =
     (let quantityOrValue = (if IsWrite (FC req) then '', Value '' else '', Quantity '')
      in ''request to '' @ FunctionCode_String (FC req) @ '' @ Addr: '' @
         Itoa (unat (maybeAddr req)) @ quantityOrValue @ Itoa (unat (maybeValueQuantity req)))"

definition DecodeRequest :: "byte list \<Rightarrow> (Request \<times> nat \<times> goerror option) outcome" where
  "DecodeRequest pdu =
    (if length pdu < 2 then Ret (zeroRequest, 0, Some ErrShortBuffer)
     else let fc = pdu ! 0 in
       if fc = FCReadHoldingRegisters \<or> fc = FCReadInputRegisters \<or> fc = FCReadCoils \<or>
          fc = FCReadDiscreteInputs \<or> fc = FCWriteSingleCoil \<or> fc = FCWriteSingleRegister then
         if length pdu < 5 then Ret (zeroRequest, 0, Some ErrMissingPacketData)
         else andThen (Uint16 pdu 1) (\<lambda>addr. andThen (Uint16 pdu 3) (\<lambda>q.
           Ret (zeroRequest\<lparr>FC := fc, maybeAddr := addr, maybeValueQuantity := q\<rparr>, 0, None)))
       else if fc = FCWriteMultipleCoils \<or> fc = FCWriteMultipleRegisters then
         if length pdu < 7 \<or> length pdu < 6 + unat (pdu ! 5)
         then Ret (zeroRequest, 0, Some ErrMissingPacketData)
         else andThen (Uint16 pdu 1) (\<lambda>addr. andThen (Uint16 pdu 3) (\<lambda>q.
           Ret (zeroRequest\<lparr>FC := fc, maybeAddr := addr, maybeValueQuantity := q,
             maybeByteCount := pdu ! 5\<rparr>, 6, None)))
       else if fc = FCReadFileRecord \<or> fc = FCWriteFileRecord \<or> fc = FCMaskWriteRegister \<or>
          fc = FCReadWriteMultipleRegisters \<or> fc = FCReadFIFOQueue
       then Ret (zeroRequest, 0, Some (ExceptionErr ExceptionIllegalFunction))
       else if fc = FCReadExceptionStatus then Ret (zeroRequest\<lparr>FC := fc\<rparr>, 0, None)
       else Ret (zeroRequest, 0, Some (ErrUnhandledFunctionCode (FunctionCode_String fc))))"

section \<open>Responses as the client reads them\<close>

definition ReceiveSingleWriteResponse :: "byte list \<Rightarrow> (uint16 \<times> uint16 \<times> goerror option) outcome" where
  "ReceiveSingleWriteResponse pdu =
    (if length pdu < 5 then Ret (0, 0, Some ErrShortBuffer)
     else let fc = pdu ! 0 in
       if fc = FCWriteSingleCoil \<or> fc = FCWriteSingleRegister then
         andThen (Uint16 pdu 1) (\<lambda>addr. andThen (Uint16 pdu 3) (\<lambda>value. Ret (addr, value, None)))
       else Ret (0, 0, Some ErrBadFunctionCode))"

text \<open>The nil slice of the error returns is the empty list.\<close>

definition ReceiveDataResponse :: "byte list \<Rightarrow> byte list \<times> goerror option" where
  "ReceiveDataResponse pdu =
    (if length pdu < 2 then ([], Some ErrShortBuffer)
     else let fc = pdu ! 0 in
       if fc = FCReadCoils \<or> fc = FCReadDiscreteInputs \<or> fc = FCReadHoldingRegisters \<or>
          fc = FCReadInputRegisters then
         if length pdu < 2 + unat (pdu ! 1) then ([], Some ErrShortBuffer)
         else (drop 2 pdu, None)
       else ([], Some ErrBadFunctionCode))"

section \<open>Marshalling\<close>

definition writeSimpleU8 :: "byte list \<Rightarrow> FunctionCode \<Rightarrow> uint8 \<Rightarrow> byte list \<Rightarrow>
    (byte list \<times> nat \<times> goerror option) outcome" where
  "writeSimpleU8 dst fc v1 responseData =
    (if int (length responseData) > int (length dst) - (1 + 1)
     then Ret (dst, 0, Some ErrResponseTooLargeTx)
     else andThen (store dst 0 fc) (\<lambda>dst. andThen (store dst 1 v1) (\<lambda>dst.
       case copy (drop 2 dst) responseData of (tl2, n) \<Rightarrow> Ret (take 2 dst @ tl2, 2 + n, None))))"

text \<open>Every caller passes a nil \<open>responseData\<close>; the parameter stays.\<close>

definition writeSimple2U16 :: "byte list \<Rightarrow> FunctionCode \<Rightarrow> uint16 \<Rightarrow> uint16 \<Rightarrow> byte list \<Rightarrow>
    (byte list \<times> nat \<times> goerror option) outcome" where
  "writeSimple2U16 dst fc v1 v2 responseData =
    (if int (length responseData) > int (length dst) - (1 + 4)
     then Ret (dst, 0, Some ErrResponseTooLargeTx)
     else andThen (store dst 0 fc) (\<lambda>dst. andThen (PutUint16 dst 1 v1) (\<lambda>dst.
       andThen (PutUint16 dst 3 v2) (\<lambda>dst.
         case copy (drop 5 dst) responseData of (tl5, n) \<Rightarrow> Ret (take 5 dst @ tl5, 5 + n, None)))))"

type_synonym txresult = "(byte list \<times> nat \<times> goerror option) outcome"

definition RequestReadCoils :: "byte list \<Rightarrow> uint16 \<Rightarrow> uint16 \<Rightarrow> txresult" where
  "RequestReadCoils dst startAddr quantityOfCoils =
    (if quantityOfCoils > 2000 \<or> quantityOfCoils = 0 then Ret (dst, 0, Some ErrDiscreteOOB)
     else writeSimple2U16 dst FCReadCoils startAddr quantityOfCoils [])"

definition RequestReadDiscreteInputs :: "byte list \<Rightarrow> uint16 \<Rightarrow> uint16 \<Rightarrow> txresult" where
  "RequestReadDiscreteInputs dst startAddr quantityOfInputs =
    (if quantityOfInputs > 2000 \<or> quantityOfInputs = 0 then Ret (dst, 0, Some ErrDiscreteOOB)
     else writeSimple2U16 dst FCReadDiscreteInputs startAddr quantityOfInputs [])"

definition RequestReadHoldingRegisters :: "byte list \<Rightarrow> uint16 \<Rightarrow> uint16 \<Rightarrow> txresult" where
  "RequestReadHoldingRegisters dst startAddr numberOfRegisters =
    (if numberOfRegisters > 125 \<or> numberOfRegisters = 0 then Ret (dst, 0, Some ErrRegisterOOB)
     else writeSimple2U16 dst FCReadHoldingRegisters startAddr numberOfRegisters [])"

definition RequestReadInputRegisters :: "byte list \<Rightarrow> uint16 \<Rightarrow> uint16 \<Rightarrow> txresult" where
  "RequestReadInputRegisters dst startAddr numberOfRegisters =
    (if numberOfRegisters > 125 \<or> numberOfRegisters = 0 then Ret (dst, 0, Some ErrRegisterOOB)
     else writeSimple2U16 dst FCReadInputRegisters startAddr numberOfRegisters [])"

definition RequestWriteSingleCoil :: "byte list \<Rightarrow> uint16 \<Rightarrow> bool \<Rightarrow> txresult" where
  "RequestWriteSingleCoil dst addr value =
    (let v = (if value then 0xff00 else 0) in writeSimple2U16 dst FCWriteSingleCoil addr v [])"

definition RequestWriteSingleRegister :: "byte list \<Rightarrow> uint16 \<Rightarrow> uint16 \<Rightarrow> txresult" where
  "RequestWriteSingleRegister dst addr value = writeSimple2U16 dst FCWriteSingleRegister addr value []"

definition RequestWriteMultipleCoils :: "byte list \<Rightarrow> uint16 \<Rightarrow> uint16 \<Rightarrow> byte list \<Rightarrow> txresult" where
  "RequestWriteMultipleCoils dst startAddr quantityOfOutputs data =
    (let ln = length data in
     if ln < 1 \<or> ln > 250 \<or> quantityOfOutputs > 2000 \<or> quantityOfOutputs = 0 \<or>
        quantityOfOutputs > word_of_nat (ln * 8)
     then Ret (dst, 0, Some ErrDiscreteOOB)
     else let dataLenOK = (quantityOfOutputs div 8 = word_of_nat ln \<or>
        quantityOfOutputs mod 8 \<noteq> 0 \<and> quantityOfOutputs div 8 + 1 = word_of_nat ln) in
     if \<not> dataLenOK then Ret (dst, 0, Some ErrCoilPacking)
     else if length dst < 6 + ln then Ret (dst, 0, Some ErrResponseTooLargeTx)
     else andThen (store dst 0 FCWriteMultipleCoils) (\<lambda>dst.
       andThen (PutUint16 dst 1 startAddr) (\<lambda>dst.
       andThen (PutUint16 dst 3 quantityOfOutputs) (\<lambda>dst.
       andThen (store dst 5 (word_of_nat ln)) (\<lambda>dst.
         case copy (drop 6 dst) data of (tl6, n) \<Rightarrow> Ret (take 6 dst @ tl6, 6 + ln, None))))))"

text \<open>The \<open>range\<close> loop of \<open>RequestWriteMultipleRegisters\<close>, from index \<open>i\<close> on.\<close>

fun putRegisters :: "byte list \<Rightarrow> nat \<Rightarrow> uint16 list \<Rightarrow> byte list outcome" where
  "putRegisters dst i [] = Ret dst"
| "putRegisters dst i (r # rs) =
     andThen (PutUint16 dst (6 + i * 2) r) (\<lambda>dst. putRegisters dst (Suc i) rs)"

definition RequestWriteMultipleRegisters :: "byte list \<Rightarrow> uint16 \<Rightarrow> uint16 list \<Rightarrow> txresult" where
  "RequestWriteMultipleRegisters dst startAddr registers =
    (if length registers < 1 \<or> length registers > 123 then Ret (dst, 0, Some ErrRegisterOOB)
     else if length dst < 6 + length registers * 2 then Ret (dst, 0, Some ErrResponseTooLargeTx)
     else andThen (store dst 0 FCWriteMultipleRegisters) (\<lambda>dst.
       andThen (PutUint16 dst 1 startAddr) (\<lambda>dst.
       andThen (PutUint16 dst 3 (word_of_nat (length registers))) (\<lambda>dst.
       let NBytes = length registers * 2 in
       andThen (store dst 5 (word_of_nat NBytes)) (\<lambda>dst.
       andThen (putRegisters dst 0 registers) (\<lambda>dst. Ret (dst, 6 + NBytes, None)))))))"

definition ResponseReadInputRegisters :: "byte list \<Rightarrow> byte list \<Rightarrow> txresult" where
  "ResponseReadInputRegisters dst registerData =
    (if length registerData mod 2 \<noteq> 0 then Ret (dst, 0, Some ErrDataLengthMustBeMultipleOf2)
     else writeSimpleU8 dst FCReadInputRegisters (word_of_nat (length registerData)) registerData)"

definition ResponseReadHoldingRegisters :: "byte list \<Rightarrow> byte list \<Rightarrow> txresult" where
  "ResponseReadHoldingRegisters dst registerData =
    (if length registerData mod 2 \<noteq> 0 then Ret (dst, 0, Some ErrDataLengthMustBeMultipleOf2)
     else writeSimpleU8 dst FCReadHoldingRegisters (word_of_nat (length registerData)) registerData)"

definition ResponseWriteSingleRegister :: "byte list \<Rightarrow> uint16 \<Rightarrow> uint16 \<Rightarrow> txresult" where
  "ResponseWriteSingleRegister dst address writtenValue =
     writeSimple2U16 dst FCWriteSingleRegister address writtenValue []"

definition ResponseWriteMultipleRegisters :: "byte list \<Rightarrow> uint16 \<Rightarrow> uint16 \<Rightarrow> txresult" where
  "ResponseWriteMultipleRegisters dst address quantityOfOutputs =
     writeSimple2U16 dst FCWriteMultipleRegisters address quantityOfOutputs []"

definition ResponseWriteSingleCoil :: "byte list \<Rightarrow> uint16 \<Rightarrow> bool \<Rightarrow> txresult" where
  "ResponseWriteSingleCoil dst address writtenValue =
    (let outputValue = (if writtenValue then 0xff00 else 0)
     in writeSimple2U16 dst FCWriteSingleCoil address outputValue [])"

definition ResponseReadCoils :: "byte list \<Rightarrow> byte list \<Rightarrow> txresult" where
  "ResponseReadCoils dst registerData =
     writeSimpleU8 dst FCReadCoils (word_of_nat (length registerData)) registerData"

definition ResponseReadDiscreteInputs :: "byte list \<Rightarrow> byte list \<Rightarrow> txresult" where
  "ResponseReadDiscreteInputs dst registerData =
     writeSimpleU8 dst FCReadDiscreteInputs (word_of_nat (length registerData)) registerData"

definition ResponseWriteMultipleCoils :: "byte list \<Rightarrow> uint16 \<Rightarrow> uint16 \<Rightarrow> txresult" where
  "ResponseWriteMultipleCoils dst address quantityOfOutputs =
     writeSimple2U16 dst FCWriteMultipleCoils address quantityOfOutputs []"

section \<open>What the marshalling methods write\<close>

named_theorems tx_simps \<open>the packets the methods of Tx write\<close>

lemma five_le_length: "5 \<le> length xs \<Longrightarrow> \<exists>a b c d e r. xs = a # b # c # d # e # r"
  by (auto simp: Suc_le_length_iff numeral_eq_Suc)

lemma six_le_length: "6 \<le> length xs \<Longrightarrow> \<exists>a b c d e f r. xs = a # b # c # d # e # f # r"
  by (auto simp: Suc_le_length_iff numeral_eq_Suc)

lemma drop_six: "drop (6 + n) (a # b # c # d # e # f # r) = drop n r"
  "drop (n + 6) (a # b # c # d # e # f # r) = drop n r"
  by (simp_all add: numeral_eq_Suc)

lemma take_six: "take (6 + n) (a # b # c # d # e # f # r) = a # b # c # d # e # f # take n r"
  by (simp add: numeral_eq_Suc)

lemma writeSimple2U16_eq [tx_simps]:
  "writeSimple2U16 dst fc a q [] =
    (if length dst < 5 then Ret (dst, 0, Some ErrResponseTooLargeTx)
     else Ret ([fc, hi8 a, lo8 a, hi8 q, lo8 q] @ drop 5 dst, 5, None))"
proof (cases "length dst < 5")
  case True
  then show ?thesis by (simp add: writeSimple2U16_def)
next
  case False
  then obtain x y z v w r where "dst = x # y # z # v # w # r"
    using five_le_length [of dst] by auto
  then show ?thesis
    by (simp add: writeSimple2U16_def store_def PutUint16_def copy_def Let_def)
qed

lemma writeSimpleU8_eq [tx_simps]:
  "writeSimpleU8 dst fc v d =
    (if length dst < 2 + length d then Ret (dst, 0, Some ErrResponseTooLargeTx)
     else Ret (fc # v # d @ drop (2 + length d) dst, 2 + length d, None))"
proof (cases "length dst < 2 + length d")
  case True
  then show ?thesis by (simp add: writeSimpleU8_def)
next
  case False
  then obtain x y r where "dst = x # y # r"
    using two_le_length [of dst] by auto
  with False show ?thesis
    by (simp add: writeSimpleU8_def store_def copy_def Let_def)
qed

lemma putRegisters_eq:
  "6 + 2 * (i + length rs) \<le> length dst \<Longrightarrow>
     putRegisters dst i rs = Ret (take (6 + 2 * i) dst @ be_bytes rs @ drop (6 + 2 * (i + length rs)) dst)"
proof (induction rs arbitrary: dst i)
  case Nil
  then show ?case by simp
next
  case (Cons r rs)
  define n where "n = 6 + 2 * i"
  let ?d = "dst[n := hi8 r, Suc n := lo8 r]"
  have n: "6 + 2 * Suc i = Suc (Suc n)" "6 + i * 2 = n" by (simp_all add: n_def)
  have len: "Suc (Suc n) \<le> length dst" using Cons.prems by (simp add: n_def)
  have "putRegisters dst i (r # rs) = putRegisters ?d (Suc i) rs"
    using len by (simp add: PutUint16_def n)
  also have "\<dots> = Ret (take (Suc (Suc n)) ?d @ be_bytes rs @ drop (6 + 2 * (Suc i + length rs)) ?d)"
    using Cons.IH [of "Suc i" ?d] Cons.prems by (simp only: n) simp
  also have "take (Suc (Suc n)) ?d = take n dst @ [hi8 r, lo8 r]"
    using len by (rule take_store2)
  finally show ?case by (simp add: n_def)
qed

lemma RequestWriteMultipleRegisters_eq [tx_simps]:
  "RequestWriteMultipleRegisters dst a rs =
    (if length rs < 1 \<or> length rs > 123 then Ret (dst, 0, Some ErrRegisterOOB)
     else if length dst < 6 + length rs * 2 then Ret (dst, 0, Some ErrResponseTooLargeTx)
     else Ret ([FCWriteMultipleRegisters, hi8 a, lo8 a, hi8 (word_of_nat (length rs)),
       lo8 (word_of_nat (length rs)), word_of_nat (2 * length rs)] @ be_bytes rs @
       drop (6 + 2 * length rs) dst, 6 + 2 * length rs, None))"
proof (cases "length rs < 1 \<or> length rs > 123 \<or> length dst < 6 + length rs * 2")
  case True
  then show ?thesis by (auto simp: RequestWriteMultipleRegisters_def)
next
  case False
  then obtain x y z v w u r where dst: "dst = x # y # z # v # w # u # r"
    using six_le_length [of dst] by auto
  with False show ?thesis
    by (simp add: RequestWriteMultipleRegisters_def store_def PutUint16_def putRegisters_eq
        Let_def mult.commute drop_six)
qed

lemma RequestWriteMultipleCoils_eq:
  "RequestWriteMultipleCoils dst a q d =
    (if length d < 1 \<or> length d > 250 \<or> q > 2000 \<or> q = 0 \<or> q > word_of_nat (length d * 8)
     then Ret (dst, 0, Some ErrDiscreteOOB)
     else if \<not> (q div 8 = word_of_nat (length d) \<or> q mod 8 \<noteq> 0 \<and> q div 8 + 1 = word_of_nat (length d))
     then Ret (dst, 0, Some ErrCoilPacking)
     else if length dst < 6 + length d then Ret (dst, 0, Some ErrResponseTooLargeTx)
     else Ret ([FCWriteMultipleCoils, hi8 a, lo8 a, hi8 q, lo8 q, word_of_nat (length d)] @ d @
       drop (6 + length d) dst, 6 + length d, None))"
proof (cases "length dst < 6 + length d")
  case True
  then show ?thesis by (simp add: RequestWriteMultipleCoils_def Let_def)
next
  case False
  then obtain x y z v w u r where dst: "dst = x # y # z # v # w # u # r"
    using six_le_length [of dst] by auto
  with False show ?thesis
    by (simp add: RequestWriteMultipleCoils_def store_def PutUint16_def copy_def Let_def drop_six)
qed

lemmas tx_unfold = RequestReadCoils_def RequestReadDiscreteInputs_def RequestReadHoldingRegisters_def
  RequestReadInputRegisters_def RequestWriteSingleCoil_def RequestWriteSingleRegister_def
  ResponseReadInputRegisters_def ResponseReadHoldingRegisters_def ResponseWriteSingleRegister_def
  ResponseWriteMultipleRegisters_def ResponseWriteSingleCoil_def ResponseReadCoils_def
  ResponseReadDiscreteInputs_def ResponseWriteMultipleCoils_def

section \<open>The contract of a marshalling method\<close>

text \<open>
  No panic; the slice keeps its length; on success only the first \<open>n\<close> bytes changed, and on
  an error none did and \<open>n\<close> is 0.
\<close>

definition tx_contract :: "byte list \<Rightarrow> txresult \<Rightarrow> bool" where
  "tx_contract dst r = (case r of
     Ret (dst', n, None) \<Rightarrow> length dst' = length dst \<and> n \<le> length dst \<and> drop n dst' = drop n dst
   | Ret (dst', n, Some e) \<Rightarrow> dst' = dst \<and> n = 0
   | _ \<Rightarrow> False)"

lemma tx_contract_Err [simp]: "tx_contract dst (Ret (dst, 0, Some e))"
  by (simp add: tx_contract_def)

lemma tx_contract_2U16: "tx_contract dst (writeSimple2U16 dst fc a q [])"
  by (auto simp: tx_simps tx_contract_def)

lemma tx_contract_U8: "tx_contract dst (writeSimpleU8 dst fc v d)"
  by (auto simp: tx_simps tx_contract_def)

lemma tx_contract_registers: "tx_contract dst (RequestWriteMultipleRegisters dst a rs)"
  by (auto simp: tx_simps tx_contract_def drop_six)

lemma tx_contract_coils: "tx_contract dst (RequestWriteMultipleCoils dst a q d)"
  by (auto simp: RequestWriteMultipleCoils_eq tx_contract_def drop_six)

section \<open>Decoding\<close>

lemma DecodeRequest_simple:
  assumes "fc = FCReadHoldingRegisters \<or> fc = FCReadInputRegisters \<or> fc = FCReadCoils \<or>
    fc = FCReadDiscreteInputs \<or> fc = FCWriteSingleCoil \<or> fc = FCWriteSingleRegister"
  shows "DecodeRequest ([fc, hi8 a, lo8 a, hi8 q, lo8 q] @ xs) =
    Ret (\<lparr>FC = fc, maybeByteCount = 0, maybeAddr = a, maybeValueQuantity = q\<rparr>, 0, None)"
  using assms by (auto simp: DecodeRequest_def Uint16_def zeroRequest_def)

lemma DecodeRequest_multiple:
  assumes "fc = FCWriteMultipleCoils \<or> fc = FCWriteMultipleRegisters"
    and "0 < length d" and "length d < 256"
  shows "DecodeRequest ([fc, hi8 a, lo8 a, hi8 q, lo8 q, word_of_nat (length d)] @ d @ xs) =
    Ret (\<lparr>FC = fc, maybeByteCount = word_of_nat (length d), maybeAddr = a, maybeValueQuantity = q\<rparr>, 6, None)"
  using assms by (auto simp: DecodeRequest_def Uint16_def zeroRequest_def unat_of_nat Let_def)

lemma InferRequest_simple:
  assumes "fc = FCReadHoldingRegisters \<or> fc = FCReadInputRegisters \<or> fc = FCReadCoils \<or>
    fc = FCReadDiscreteInputs \<or> fc = FCWriteSingleCoil \<or> fc = FCWriteSingleRegister"
  shows "InferRequestPacketLength (fc # xs) = (fc, 5, None)"
  using assms by (auto simp: InferRequestPacketLength_def)

lemma InferRequest_multiple:
  assumes "fc = FCWriteMultipleCoils \<or> fc = FCWriteMultipleRegisters" and "length d < 256"
  shows "InferRequestPacketLength ([fc, a, b, c, e, word_of_nat (length d)] @ xs) =
    (fc, word_of_nat (6 + length d), None)"
  using assms
  by (auto simp: InferRequestPacketLength_def Let_def ucast_word_of_nat
      add.commute [of "word_of_nat (length d)" 6])

lemma InferResponse_simple:
  assumes "fc = FCWriteSingleCoil \<or> fc = FCWriteSingleRegister \<or> fc = FCWriteMultipleCoils \<or>
    fc = FCWriteMultipleRegisters"
  shows "InferResponsePacketLength (fc # xs) = (fc, 5, None)"
  using assms by (auto simp: InferResponsePacketLength_def)

lemma InferResponse_data:
  assumes "fc = FCReadCoils \<or> fc = FCReadDiscreteInputs \<or> fc = FCReadHoldingRegisters \<or>
    fc = FCReadInputRegisters" and "length d < 256"
  shows "InferResponsePacketLength (fc # word_of_nat (length d) # xs) =
    (fc, word_of_nat (2 + length d), None)"
  using assms
  by (auto simp: InferResponsePacketLength_def Let_def ucast_word_of_nat
      add.commute [of "word_of_nat (length d)" 2])

lemma ReceiveData_ok:
  assumes "fc = FCReadCoils \<or> fc = FCReadDiscreteInputs \<or> fc = FCReadHoldingRegisters \<or>
    fc = FCReadInputRegisters" and "length d < 256"
  shows "ReceiveDataResponse (fc # word_of_nat (length d) # d) = (d, None)"
  using assms by (auto simp: ReceiveDataResponse_def unat_of_nat)

section \<open>Round trips\<close>

text \<open>
  \<open>r\<close> is a successful call whose packet decodes to \<open>req\<close> with the data at offset \<open>off\<close>, and whose
  length is inferred from the buffer, whatever follows the packet there.
\<close>

definition encodes_request :: "Request \<Rightarrow> nat \<Rightarrow> txresult \<Rightarrow> bool" where
  "encodes_request req off r \<longleftrightarrow> (\<exists>dst n. r = Ret (dst, n, None) \<and>
     DecodeRequest (take n dst) = Ret (req, off, None) \<and>
     InferRequestPacketLength dst = (FC req, word_of_nat n, None))"

lemma encodes_2U16:
  assumes "5 \<le> length dst"
    and "fc = FCReadHoldingRegisters \<or> fc = FCReadInputRegisters \<or> fc = FCReadCoils \<or>
      fc = FCReadDiscreteInputs \<or> fc = FCWriteSingleCoil \<or> fc = FCWriteSingleRegister"
  shows "encodes_request \<lparr>FC = fc, maybeByteCount = 0, maybeAddr = a, maybeValueQuantity = q\<rparr> 0
    (writeSimple2U16 dst fc a q [])"
  using assms DecodeRequest_simple [OF assms(2), of a q "[]"] InferRequest_simple [OF assms(2)]
  by (simp add: encodes_request_def tx_simps)

text \<open>
  C19. Every request of fixed length that a client marshals is decoded by the server to the same
  function code, address and quantity or value, and its length is inferred from the buffer.
\<close>

theorem request_roundtrip:
  assumes "5 \<le> length dst"
  shows "(0 < q \<and> q \<le> 2000 \<longrightarrow>
      encodes_request \<lparr>FC = FCReadCoils, maybeByteCount = 0, maybeAddr = a, maybeValueQuantity = q\<rparr> 0
        (RequestReadCoils dst a q) \<and>
      encodes_request \<lparr>FC = FCReadDiscreteInputs, maybeByteCount = 0, maybeAddr = a, maybeValueQuantity = q\<rparr> 0
        (RequestReadDiscreteInputs dst a q)) \<and>
    (0 < q \<and> q \<le> 125 \<longrightarrow>
      encodes_request \<lparr>FC = FCReadHoldingRegisters, maybeByteCount = 0, maybeAddr = a, maybeValueQuantity = q\<rparr> 0
        (RequestReadHoldingRegisters dst a q) \<and>
      encodes_request \<lparr>FC = FCReadInputRegisters, maybeByteCount = 0, maybeAddr = a, maybeValueQuantity = q\<rparr> 0
        (RequestReadInputRegisters dst a q)) \<and>
    encodes_request \<lparr>FC = FCWriteSingleCoil, maybeByteCount = 0, maybeAddr = a,
        maybeValueQuantity = (if on then 0xff00 else 0)\<rparr> 0 (RequestWriteSingleCoil dst a on) \<and>
    encodes_request \<lparr>FC = FCWriteSingleRegister, maybeByteCount = 0, maybeAddr = a, maybeValueQuantity = q\<rparr> 0
        (RequestWriteSingleRegister dst a q)"
  using assms encodes_2U16 by (auto simp: tx_unfold)

theorem request_roundtrip_witness:
  "encodes_request \<lparr>FC = FCReadHoldingRegisters, maybeByteCount = 0, maybeAddr = 7, maybeValueQuantity = 3\<rparr> 0
     (RequestReadHoldingRegisters (replicate 8 0) 7 3)"
  using request_roundtrip [of "replicate 8 0" 3 7 True] by simp

text \<open>
  C24. A multiple-register write packet decodes to its address, quantity and byte count, the data
  field is at the offset the decoder returns, and the registers read from it are those the client passed.
\<close>

theorem write_registers_roundtrip:
  assumes "0 < length rs" and "length rs \<le> 123" and "6 + 2 * length rs \<le> length dst"
  shows "encodes_request \<lparr>FC = FCWriteMultipleRegisters, maybeByteCount = word_of_nat (2 * length rs),
      maybeAddr = a, maybeValueQuantity = word_of_nat (length rs)\<rparr> 6
      (RequestWriteMultipleRegisters dst a rs) \<and>
    (\<exists>dst'. RequestWriteMultipleRegisters dst a rs = Ret (dst', 6 + 2 * length rs, None) \<and>
      take (2 * length rs) (drop 6 dst') = be_bytes rs)"
  using assms DecodeRequest_multiple [of FCWriteMultipleRegisters "be_bytes rs" a "word_of_nat (length rs)" "[]"]
    InferRequest_multiple [of FCWriteMultipleRegisters "be_bytes rs"]
  by (simp add: encodes_request_def tx_simps take_six)

theorem write_registers_roundtrip_witness:
  "encodes_request \<lparr>FC = FCWriteMultipleRegisters, maybeByteCount = 4, maybeAddr = 9, maybeValueQuantity = 2\<rparr> 6
     (RequestWriteMultipleRegisters (replicate 12 0) 9 [0x1234, 0xabcd])"
  using write_registers_roundtrip [of "[0x1234, 0xabcd]" "replicate 12 0" 9] by simp

text \<open>
  A multiple-coil write with its data packed eight coils to a byte is accepted, decodes to its
  address, quantity and byte count, and carries the packed data at the offset of the decoder.
\<close>

theorem write_coils_roundtrip:
  assumes "0 < unat q" and "unat q \<le> 2000" and "length d = (unat q + 7) div 8"
    and "6 + length d \<le> length dst"
  shows "encodes_request \<lparr>FC = FCWriteMultipleCoils, maybeByteCount = word_of_nat (length d),
      maybeAddr = a, maybeValueQuantity = q\<rparr> 6 (RequestWriteMultipleCoils dst a q d) \<and>
    (\<exists>dst'. RequestWriteMultipleCoils dst a q d = Ret (dst', 6 + length d, None) \<and>
      take (length d) (drop 6 dst') = d)"
proof -
  have len: "0 < length d" "length d \<le> 250" "unat q \<le> 8 * length d" using assms(1-3) by auto
  have "unat (word_of_nat (length d * 8) :: uint16) = length d * 8"
    using len(2) by (simp only: unat_of_nat) simp
  then have le: "\<not> q > word_of_nat (length d * 8)" "\<not> q > 2000" "q \<noteq> 0"
    using len assms by (auto simp: word_less_nat_alt simp del: of_nat_mult)
  have "q div 8 = word_of_nat (length d) \<or> q mod 8 \<noteq> 0 \<and> q div 8 + 1 = word_of_nat (length d)"
  proof (cases "unat q mod 8 = 0")
    case True
    then have "length d = unat (q div 8)" using assms(3) by (simp add: unat_div) arith
    then have "word_of_nat (length d) = q div 8" by simp
    then show ?thesis by simp
  next
    case False
    then have "length d = Suc (unat (q div 8))" using assms(3) by (simp add: unat_div) arith
    then have "word_of_nat (length d) = q div 8 + 1" by simp
    moreover have "q mod 8 \<noteq> 0" using False by (simp add: word_unat_eq_iff unat_mod)
    ultimately show ?thesis by simp
  qed
  then show ?thesis
    using len le assms(4) DecodeRequest_multiple [of FCWriteMultipleCoils d a q "[]"]
      InferRequest_multiple [of FCWriteMultipleCoils d]
    by (simp add: encodes_request_def RequestWriteMultipleCoils_eq take_six)
qed

theorem write_coils_roundtrip_witness:
  "encodes_request \<lparr>FC = FCWriteMultipleCoils, maybeByteCount = 2, maybeAddr = 4, maybeValueQuantity = 10\<rparr> 6
     (RequestWriteMultipleCoils (replicate 8 0) 4 10 [0xCD, 0x01])"
  using write_coils_roundtrip [of 10 "[0xCD, 0x01]" "replicate 8 0" 4] by simp

text \<open>
  C25. No method of \<open>Tx\<close> panics, whatever the destination slice and the arguments.  On success it
  has written only the first \<open>n\<close> bytes; on an error it has written nothing and reports 0 bytes.
\<close>

theorem tx_methods_contract:
  "tx_contract dst (RequestReadCoils dst a q) \<and> tx_contract dst (RequestReadDiscreteInputs dst a q) \<and>
   tx_contract dst (RequestReadHoldingRegisters dst a q) \<and> tx_contract dst (RequestReadInputRegisters dst a q) \<and>
   tx_contract dst (RequestWriteSingleCoil dst a on) \<and> tx_contract dst (RequestWriteSingleRegister dst a q) \<and>
   tx_contract dst (RequestWriteMultipleCoils dst a q d) \<and>
   tx_contract dst (RequestWriteMultipleRegisters dst a rs) \<and>
   tx_contract dst (ResponseReadInputRegisters dst d) \<and> tx_contract dst (ResponseReadHoldingRegisters dst d) \<and>
   tx_contract dst (ResponseWriteSingleRegister dst a q) \<and> tx_contract dst (ResponseWriteMultipleRegisters dst a q) \<and>
   tx_contract dst (ResponseWriteSingleCoil dst a on) \<and> tx_contract dst (ResponseReadCoils dst d) \<and>
   tx_contract dst (ResponseReadDiscreteInputs dst d) \<and> tx_contract dst (ResponseWriteMultipleCoils dst a q)"
  by (simp add: tx_unfold tx_contract_2U16 tx_contract_U8 tx_contract_registers tx_contract_coils)

definition encodes_response :: "FunctionCode \<Rightarrow> txresult \<Rightarrow> bool" where
  "encodes_response fc r \<longleftrightarrow> (\<exists>dst n. r = Ret (dst, n, None) \<and>
     InferResponsePacketLength dst = (fc, word_of_nat n, None))"

text \<open>
  The length of every response packet is inferred from the buffer that holds it: the byte count
  of a read response, the fixed five bytes of a write response.
\<close>

theorem response_length_inferred:
  assumes "5 \<le> length dst" and "2 + length d \<le> length dst" and "length d < 256"
  shows "encodes_response FCReadCoils (ResponseReadCoils dst d) \<and>
    encodes_response FCReadDiscreteInputs (ResponseReadDiscreteInputs dst d) \<and>
    (even (length d) \<longrightarrow> encodes_response FCReadHoldingRegisters (ResponseReadHoldingRegisters dst d) \<and>
      encodes_response FCReadInputRegisters (ResponseReadInputRegisters dst d)) \<and>
    encodes_response FCWriteSingleCoil (ResponseWriteSingleCoil dst a on) \<and>
    encodes_response FCWriteSingleRegister (ResponseWriteSingleRegister dst a q) \<and>
    encodes_response FCWriteMultipleCoils (ResponseWriteMultipleCoils dst a q) \<and>
    encodes_response FCWriteMultipleRegisters (ResponseWriteMultipleRegisters dst a q)"
  using assms InferResponse_data [of _ d] InferResponse_simple
  by (auto simp: tx_unfold tx_simps encodes_response_def even_iff_mod_2_eq_zero)

theorem response_length_inferred_witness:
  "encodes_response FCReadCoils (ResponseReadCoils (replicate 10 0) [1, 2, 3])"
  using response_length_inferred [of "replicate 10 0" "[1, 2, 3]" 0 True 0] by simp

section \<open>Incremental inference\<close>

lemma InferRequest_missing:
  assumes "InferRequestPacketLength b = (fc, k, Some ErrMissingPacketData)"
  shows "b = [] \<and> unat k = 1 \<or>
    b \<noteq> [] \<and> length b < 6 \<and> (b ! 0 = FCWriteMultipleCoils \<or> b ! 0 = FCWriteMultipleRegisters) \<and>
      unat k = 6 - length b"
proof -
  have "unat (word_of_nat (6 - length b) :: uint16) = 6 - length b"
    by (simp only: unat_of_nat) simp
  with assms show ?thesis
    by (cases b) (auto simp: InferRequestPacketLength_def Let_def simp del: of_nat_diff split: if_splits)
qed

lemma InferRequest_stable:
  "InferRequestPacketLength b = (fc, n, None) \<Longrightarrow> InferRequestPacketLength (b @ x) = (fc, n, None)"
  by (cases b) (auto simp: InferRequestPacketLength_def Let_def nth_append split: if_splits)

lemma InferResponse_stable:
  "InferResponsePacketLength b = (fc, n, None) \<Longrightarrow> InferResponsePacketLength (b @ x) = (fc, n, None)"
  by (cases b) (auto simp: InferResponsePacketLength_def Let_def nth_append split: if_splits)

lemma unat_byte_plus_6: "unat (ucast (x :: byte) + 6 :: uint16) = unat x + 6"
proof -
  have "unat x < 256" using unsigned_less [of x] by simp
  then show ?thesis by (simp add: unat_word_ariths unsigned_ucast_eq take_bit_nat_eq_self)
qed

lemma InferRequest_length:
  "InferRequestPacketLength b = (fc, n, None) \<Longrightarrow>
    1 \<le> unat n \<and> (b ! 0 = FCWriteMultipleCoils \<or> b ! 0 = FCWriteMultipleRegisters \<longrightarrow> 6 \<le> unat n)"
  by (auto simp: InferRequestPacketLength_def Let_def unat_byte_plus_6 split: if_splits)

text \<open>
  C26. Inferring the length of a request from the bytes received so far: a length once inferred
  does not change when more bytes arrive; when bytes are missing, the number asked for never
  reaches past the end of the packet, and after a first byte it is enough to infer the length.
\<close>

theorem infer_request_incremental:
  "(InferRequestPacketLength b = (fc, n, None) \<longrightarrow> InferRequestPacketLength (b @ x) = (fc, n, None)) \<and>
   (InferRequestPacketLength b = (fc, k, Some ErrMissingPacketData) \<longrightarrow>
     (\<forall>fc' m. InferRequestPacketLength (b @ x) = (fc', m, None) \<longrightarrow> length b + unat k \<le> unat m) \<and>
     (b \<noteq> [] \<and> length x = unat k \<longrightarrow> (\<exists>m. InferRequestPacketLength (b @ x) = (b ! 0, m, None))))"
proof (intro conjI impI allI)
  show "InferRequestPacketLength (b @ x) = (fc, n, None)" if "InferRequestPacketLength b = (fc, n, None)"
    using that by (rule InferRequest_stable)
next
  fix fc' m
  assume "InferRequestPacketLength b = (fc, k, Some ErrMissingPacketData)"
    and "InferRequestPacketLength (b @ x) = (fc', m, None)"
  then show "length b + unat k \<le> unat m"
    using InferRequest_length [of "b @ x"] InferRequest_missing [of b fc k]
    by (auto simp: nth_append)
next
  assume "InferRequestPacketLength b = (fc, k, Some ErrMissingPacketData)"
    and "b \<noteq> [] \<and> length x = unat k"
  then show "\<exists>m. InferRequestPacketLength (b @ x) = (b ! 0, m, None)"
    using InferRequest_missing [of b fc k]
    by (auto simp: InferRequestPacketLength_def [of "b @ x"] Let_def nth_append)
qed

theorem infer_request_incremental_witness:
  "InferRequestPacketLength ([0x10, 0, 9, 0] @ [2, 4]) = (0x10, 10, None) \<and>
   (\<exists>m. InferRequestPacketLength ([0x10, 0, 9, 0] @ [2, 4]) = (0x10, m, None))"
  using infer_request_incremental [of "[0x10, 0, 9, 0]" 0 0 "[2, 4]" 2]
  by (simp add: InferRequestPacketLength_def)

end
