(* ===== verification/Rtu_State.thy ===== *)
theory Rtu_State
  imports Data_Model Tx Crc
begin

text \<open>
  \<open>connState\<close> of \<open>src/modbusrtu/rtustate.go\<close>: the receive buffer of an RTU connection and
  \<open>TryRx\<close>, which assembles one packet in it.  The serial port and the clock are the parameter
  \<open>W\<close>, whose state \<open>w\<close> is passed through; a port is a handle of type \<open>'p\<close>.  A slice of the receive
  buffer that a method returns is its offset and length, \<open>None\<close> for nil.  The messages of the logger
  are not modelled, the slices taken for its arguments are: they are evaluated without a logger too.
\<close>

section \<open>The environment\<close>

text \<open>
  \<open>Read\<close> gets the contents of the slice it may write to and returns its new contents, the number of
  bytes read and the error.
\<close>

record ('p, 'w) World =
  portRead :: "'p \<Rightarrow> 'w \<Rightarrow> byte list \<Rightarrow> ('w \<times> byte list \<times> int \<times> goerror option) outcome"
  portWrite :: "'p \<Rightarrow> 'w \<Rightarrow> byte list \<Rightarrow> ('w \<times> int \<times> goerror option) outcome"
  timeNow :: "'w \<Rightarrow> 'w \<times> int"
  timeSleep :: "'w \<Rightarrow> int \<Rightarrow> 'w"

definition nil_dereference :: string where
  "nil_dereference = ''invalid memory address or nil pointer dereference''"

type_synonym 'w preprocessor = "'w \<Rightarrow> byte list \<Rightarrow> int \<Rightarrow> ('w \<times> byte list \<times> int \<times> int) outcome"

section \<open>The state of a connection\<close>

record ('s, 'p, 'w) connState =
  mu :: bool
  data :: "'s DataModel option"
  closeErr :: "goerror option"
  port :: "'p option"
  pendingAddr :: uint8
  murx :: bool
  lastRxTime :: int
  dataStart :: int
  dataEnd :: int
  preproc :: "'w preprocessor option"
  rxbuf :: "byte list"
  txbuf :: "byte list"

text \<open>The zero value of \<open>connState\<close>.\<close>

definition zeroConn :: "('s, 'p, 'w) connState" where
  "zeroConn = \<lparr>mu = False, data = None, closeErr = None, port = None, pendingAddr = 0, murx = False, lastRxTime = 0,
     dataStart = 0, dataEnd = 0, preproc = None, rxbuf = replicate 512 0, txbuf = replicate 259 0\<rparr>"

definition buffered :: "('s, 'p, 'w) connState \<Rightarrow> int" where
  "buffered cs = dataEnd cs - dataStart cs"

definition rxBytes :: "('s, 'p, 'w) connState \<Rightarrow> byte list outcome" where
  "rxBytes cs = sub (rxbuf cs) (dataStart cs) (dataEnd cs)"

definition Err :: "('s, 'p, 'w) connState \<Rightarrow> goerror option outcome" where
  "Err cs = (if mu cs then Blocks else Ret (closeErr cs))"

definition resetRxBuf :: "('s, 'p, 'w) connState \<Rightarrow> ('s, 'p, 'w) connState outcome" where
  "resetRxBuf cs =
    (if dataStart cs \<noteq> dataEnd cs \<and> buffered cs < 256 then
       andThen (sub (rxbuf cs) (dataStart cs) (dataEnd cs)) (\<lambda>src.
         case copy (rxbuf cs) src of (rxbuf', n) \<Rightarrow>
           Ret (cs\<lparr>rxbuf := rxbuf', dataEnd := int n, dataStart := 0\<rparr>))
     else Ret (cs\<lparr>dataEnd := 0, dataStart := 0\<rparr>))"

definition ResetRxBuf :: "('s, 'p, 'w) connState \<Rightarrow> ('s, 'p, 'w) connState outcome" where
  "ResetRxBuf cs = (if murx cs then Blocks else resetRxBuf cs)"

text \<open>The call of the preprocessor on \<open>rxbuf[dataStart:dataEnd]\<close>, which it may modify.\<close>

definition runPreproc :: "('s, 'p, 'w) connState \<Rightarrow> 'w \<Rightarrow> int \<Rightarrow> (('s, 'p, 'w) connState \<times> 'w) outcome" where
  "runPreproc cs w n =
    (case preproc cs of None \<Rightarrow> Ret (cs, w)
     | Some f \<Rightarrow>
       andThen (sub (rxbuf cs) (dataStart cs) (dataEnd cs)) (\<lambda>buf.
       andThen (f w buf n) (\<lambda>(w, buf, start, end').
         Ret (cs\<lparr>rxbuf := overwrite (nat (dataStart cs)) buf (rxbuf cs),
                 dataEnd := dataStart cs + end', dataStart := dataStart cs + start\<rparr>, w))))"

definition read :: "('p, 'w) World \<Rightarrow> ('s, 'p, 'w) connState \<Rightarrow> 'w \<Rightarrow> int \<Rightarrow>
    (('s, 'p, 'w) connState \<times> 'w \<times> int \<times> goerror option) outcome" where
  "read W cs w upTo =
    (if upTo > int (length (rxbuf cs)) - dataEnd cs then Ret (cs, w, 0, Some ErrReadOverflow)
     else if upTo = 0 then Panic ''read 0''
     else andThen (sub (rxbuf cs) (dataEnd cs) (dataEnd cs + upTo)) (\<lambda>p.
       case port cs of None \<Rightarrow> Panic nil_dereference
       | Some h \<Rightarrow>
         andThen (portRead W h w p) (\<lambda>(w, p, n, err).
         let cs = cs\<lparr>rxbuf := overwrite (nat (dataEnd cs)) p (rxbuf cs)\<rparr> in
         andThen
           (if n \<noteq> 0 then
              case timeNow W w of (w, now) \<Rightarrow>
                runPreproc (cs\<lparr>lastRxTime := now, dataEnd := dataEnd cs + n\<rparr>) w n
            else Ret (cs, w))
           (\<lambda>(cs, w).
              if err = None \<and> n \<noteq> 0
              then andThen (sub (rxbuf cs) (dataEnd cs - n) (dataEnd cs)) (\<lambda>_. Ret (cs, w, n, err))
              else Ret (cs, w, n, err)))))"

text \<open>\<open>port.Write\<close>, with the nil port of a connection that has none.\<close>

definition writePort :: "('p, 'w) World \<Rightarrow> ('s, 'p, 'w) connState \<Rightarrow> 'w \<Rightarrow> byte list \<Rightarrow> ('w \<times> goerror option) outcome" where
  "writePort W cs w b =
    (case port cs of None \<Rightarrow> Panic nil_dereference
     | Some h \<Rightarrow> andThen (portWrite W h w b) (\<lambda>(w, n, err). Ret (w, err)))"

section \<open>TryRx\<close>

type_synonym ('s, 'p, 'w) rxresult =
  "('s, 'p, 'w) connState \<times> 'w \<times> (nat \<times> nat) option \<times> uint8 \<times> goerror option"

text \<open>The end of \<open>TryRx\<close>: a complete packet of \<open>pdulen\<close> bytes with its address and checksum.\<close>

definition checkPacket :: "('s, 'p, 'w) connState \<Rightarrow> 'w \<Rightarrow> uint16 \<Rightarrow> ('s, 'p, 'w) rxresult outcome" where
  "checkPacket cs w pdulen =
     andThen (if dataStart cs < 0 then Panic index_range else index (rxbuf cs) (nat (dataStart cs))) (\<lambda>address.
     andThen (sub (rxbuf cs) (dataStart cs) (dataStart cs + int (unat pdulen) + 3)) (\<lambda>packet.
     let crc = generateCRC (take (length packet - 2) packet) in
     andThen (Uint16LE packet (length packet - 2)) (\<lambda>gotcrc.
     let cs' = cs\<lparr>dataStart := dataStart cs + int (length packet)\<rparr>;
         err = (if gotcrc \<noteq> crc then Some (CRCError packet) else None)
     in Ret (cs', w, Some (nat (dataStart cs) + 1, length packet - 3), address, err))))"

definition inferLength :: "bool \<Rightarrow> byte list \<Rightarrow> FunctionCode \<times> uint16 \<times> goerror option" where
  "inferLength isResponse b = (if isResponse then InferResponsePacketLength b else InferRequestPacketLength b)"

text \<open>From the inference of the length on.\<close>

definition rxPacket :: "('p, 'w) World \<Rightarrow> bool \<Rightarrow> ('s, 'p, 'w) connState \<Rightarrow> 'w \<Rightarrow>
    ('s, 'p, 'w) rxresult outcome" where
  "rxPacket W isResponse cs w =
     andThen (sub (rxbuf cs) (dataStart cs + 1) (dataEnd cs)) (\<lambda>b.
     case inferLength isResponse b of
       (_, pdulen, err) \<Rightarrow>
       if err = Some ErrBadFunctionCode then Ret (cs\<lparr>closeErr := err\<rparr>, w, None, 0, err)
       else let missingData = int (unat pdulen) + 3 - buffered cs in
         andThen (read W cs w missingData) (\<lambda>(cs, w, n, rxerr).
           if rxerr \<noteq> None then Ret (cs, w, None, 0, rxerr)
           else if err \<noteq> None then Ret (cs, w, None, 0, err)
           else if missingData > n then Ret (cs, w, None, 0, Some ErrMissingPacketData)
           else checkPacket cs w pdulen))"

text \<open>The deferred log call slices the buffered bytes on every return.\<close>

definition TryRx :: "('p, 'w) World \<Rightarrow> bool \<Rightarrow> ('s, 'p, 'w) connState \<Rightarrow> 'w \<Rightarrow>
    ('s, 'p, 'w) rxresult outcome" where
  "TryRx W isResponse cs w =
    (if murx cs then Blocks
     else andThen
       (andThen (if dataEnd cs > 256 \<or> buffered cs = 0 then resetRxBuf cs else Ret cs) (\<lambda>cs.
        if buffered cs < 2 then
          andThen (read W cs w (2 - buffered cs)) (\<lambda>(cs', w, n, err).
            if buffered cs + n < 2 then
              if err \<noteq> None then Ret (cs', w, None, 0, err)
              else Ret (cs', w, None, 0, Some ErrMissingPacketData)
            else rxPacket W isResponse cs' w)
        else rxPacket W isResponse cs w))
       (\<lambda>(cs, w, r). andThen (rxBytes cs) (\<lambda>_. Ret (cs, w, r))))"

text \<open>The contents of a slice of the receive buffer.\<close>

definition rxSlice :: "('s, 'p, 'w) connState \<Rightarrow> nat \<Rightarrow> nat \<Rightarrow> byte list" where
  "rxSlice cs off len = take len (drop off (rxbuf cs))"

text \<open>The contents of a returned PDU, empty for nil.\<close>

definition pduBytes :: "('s, 'p, 'w) connState \<Rightarrow> (nat \<times> nat) option \<Rightarrow> byte list" where
  "pduBytes cs pdu = (case pdu of None \<Rightarrow> [] | Some (off, len) \<Rightarrow> rxSlice cs off len)"

section \<open>The contract of the port and the invariant of the buffer\<close>

text \<open>What \<open>io.Reader\<close> documents: \<open>0 <= n <= len(p)\<close>, and nothing is written outside \<open>p\<close>.\<close>

definition reader_contract :: "('p, 'w) World \<Rightarrow> bool" where
  "reader_contract W \<longleftrightarrow> (\<forall>h w p. case portRead W h w p of
     Ret (w', p', n, err) \<Rightarrow> length p' = length p \<and> 0 \<le> n \<and> n \<le> int (length p)
   | Panic m \<Rightarrow> False
   | Blocks \<Rightarrow> True)"

definition rx_ok :: "('s, 'p, 'w) connState \<Rightarrow> bool" where
  "rx_ok cs \<longleftrightarrow> length (rxbuf cs) = 512 \<and> length (txbuf cs) = 259 \<and>
     0 \<le> dataStart cs \<and> dataStart cs \<le> dataEnd cs \<and> dataEnd cs \<le> 512"

text \<open>The bytes received and not consumed.\<close>

definition pending :: "('s, 'p, 'w) connState \<Rightarrow> byte list" where
  "pending cs = take (nat (buffered cs)) (drop (nat (dataStart cs)) (rxbuf cs))"

text \<open>The fields that receiving does not change.\<close>

definition same_conn :: "('s, 'p, 'w) connState \<Rightarrow> ('s, 'p, 'w) connState \<Rightarrow> bool" where
  "same_conn cs cs' \<longleftrightarrow> mu cs' = mu cs \<and> murx cs' = murx cs \<and> data cs' = data cs \<and> port cs' = port cs \<and>
     preproc cs' = preproc cs \<and> pendingAddr cs' = pendingAddr cs \<and> txbuf cs' = txbuf cs"

lemma same_conn_refl [simp]: "same_conn cs cs"
  by (simp add: same_conn_def)

lemma same_conn_trans: "same_conn a b \<Longrightarrow> same_conn b c \<Longrightarrow> same_conn a c"
  by (simp add: same_conn_def)

lemma length_pending: "rx_ok cs \<Longrightarrow> length (pending cs) = nat (buffered cs)"
  by (auto simp: rx_ok_def pending_def buffered_def)

lemma rxBytes_ok [simp]: "rx_ok cs \<Longrightarrow> rxBytes cs = Ret (pending cs)"
  by (simp add: rx_ok_def rxBytes_def pending_def buffered_def sub_Ret)

lemma resetRxBuf_ok:
  assumes "rx_ok cs"
  shows "\<exists>cs'. resetRxBuf cs = Ret cs' \<and> rx_ok cs' \<and> same_conn cs cs' \<and> dataStart cs' = 0 \<and>
    closeErr cs' = closeErr cs \<and> dataEnd cs' < 256 \<and> pending cs' = (if buffered cs < 256 then pending cs else [])"
proof (cases "dataStart cs \<noteq> dataEnd cs \<and> buffered cs < 256")
  case True
  let ?n = "nat (buffered cs)"
  let ?cs = "cs\<lparr>rxbuf := pending cs @ drop ?n (rxbuf cs), dataEnd := int ?n, dataStart := 0\<rparr>"
  have n: "?n \<le> length (rxbuf cs)" using assms by (auto simp: rx_ok_def buffered_def)
  have len: "length (pending cs) = ?n" using assms by (rule length_pending)
  have "sub (rxbuf cs) (dataStart cs) (dataEnd cs) = Ret (pending cs)"
    using rxBytes_ok [OF assms] by (simp add: rxBytes_def)
  moreover have "copy (rxbuf cs) (pending cs) = (pending cs @ drop ?n (rxbuf cs), ?n)"
    using n len by (simp add: copy_def Let_def min_def)
  ultimately have "resetRxBuf cs = Ret ?cs" using True by (simp add: resetRxBuf_def)
  moreover have "rx_ok ?cs" using assms n len by (auto simp: rx_ok_def buffered_def)
  moreover have "pending ?cs = pending cs" using len by (simp add: pending_def buffered_def)
  ultimately show ?thesis using True assms
    by (intro exI [of _ ?cs]) (auto simp: same_conn_def rx_ok_def buffered_def)
next
  case False
  let ?cs = "cs\<lparr>dataEnd := 0, dataStart := 0\<rparr>"
  have "resetRxBuf cs = Ret ?cs" using False by (auto simp: resetRxBuf_def)
  moreover have "pending ?cs = (if buffered cs < 256 then pending cs else [])"
    using False by (auto simp: pending_def buffered_def)
  ultimately show ?thesis using assms by (intro exI [of _ ?cs]) (auto simp: same_conn_def rx_ok_def)
qed

text \<open>The wrap-around at the start of \<open>TryRx\<close>.\<close>

lemma wrap_ok:
  assumes "rx_ok cs"
  shows "\<exists>cs'. (if dataEnd cs > 256 \<or> buffered cs = 0 then resetRxBuf cs else Ret cs) = Ret cs' \<and> rx_ok cs' \<and>
    same_conn cs cs' \<and> closeErr cs' = closeErr cs \<and> dataEnd cs' \<le> 256 \<and>
    pending cs' = (if dataEnd cs > 256 \<and> buffered cs \<ge> 256 then [] else pending cs)"
  using resetRxBuf_ok [OF assms] assms by (cases "dataEnd cs > 256 \<or> buffered cs = 0") auto


text \<open>A read of a connection without preprocessor: the state after \<open>n\<close> bytes were received as \<open>p\<close>.\<close>

definition received :: "('s, 'p, 'w) connState \<Rightarrow> byte list \<Rightarrow> int \<Rightarrow> int \<Rightarrow> ('s, 'p, 'w) connState" where
  "received cs p n now = (if n = 0 then cs\<lparr>rxbuf := overwrite (nat (dataEnd cs)) p (rxbuf cs)\<rparr>
     else cs\<lparr>rxbuf := overwrite (nat (dataEnd cs)) p (rxbuf cs), lastRxTime := now, dataEnd := dataEnd cs + n\<rparr>)"

lemma received_ok:
  assumes "rx_ok cs" and "int (length p) \<le> 512 - dataEnd cs" and "0 \<le> n" and "n \<le> int (length p)"
  shows "rx_ok (received cs p n now)" and "same_conn cs (received cs p n now)"
    and "dataStart (received cs p n now) = dataStart cs" and "dataEnd (received cs p n now) = dataEnd cs + n"
    and "closeErr (received cs p n now) = closeErr cs"
    and "pending (received cs p n now) = pending cs @ take (nat n) p"
proof -
  let ?e = "nat (dataEnd cs)" and ?s = "nat (dataStart cs)" and ?k = "nat n"
  have buf: "rxbuf (received cs p n now) = take ?e (rxbuf cs) @ p @ drop (?e + length p) (rxbuf cs)"
    by (simp add: received_def overwrite_def)
  show "dataStart (received cs p n now) = dataStart cs" "dataEnd (received cs p n now) = dataEnd cs + n"
    "same_conn cs (received cs p n now)" "closeErr (received cs p n now) = closeErr cs"
    by (simp_all add: received_def same_conn_def)
  then show "rx_ok (received cs p n now)"
    using assms buf by (auto simp: rx_ok_def same_conn_def)
  have bounds: "?s \<le> ?e" "?e \<le> length (rxbuf cs)" "nat (dataEnd cs + n - dataStart cs) = (?e - ?s) + ?k" "?k \<le> length p"
    using assms by (auto simp: rx_ok_def nat_diff_distrib nat_add_distrib)
  define A where "A = take (?e - ?s) (drop ?s (rxbuf cs))"
  have A: "length A = ?e - ?s" "drop ?s (take ?e (rxbuf cs)) = A"
    using bounds(1,2) by (simp_all add: A_def drop_take)
  have "drop ?s (rxbuf (received cs p n now)) = A @ p @ drop (?e + length p) (rxbuf cs)"
    using bounds(1,2) by (simp add: buf A(2) [symmetric])
  then have "take ((?e - ?s) + ?k) (drop ?s (rxbuf (received cs p n now))) = A @ take ?k p"
    using bounds(4) by (simp add: A(1) [symmetric])
  then show "pending (received cs p n now) = pending cs @ take ?k p"
    using bounds(3) assms(1)
    by (simp add: pending_def buffered_def A_def \<open>dataStart _ = _\<close> \<open>dataEnd _ = _\<close> nat_diff_distrib rx_ok_def)
qed

lemma read_eq:
  assumes W: "reader_contract W" and ok: "rx_ok cs" and pre: "preproc cs = None" and h: "port cs = Some h"
    and upTo: "0 < upTo" "upTo \<le> 512 - dataEnd cs"
  shows "read W cs w upTo =
    andThen (portRead W h w (take (nat upTo) (drop (nat (dataEnd cs)) (rxbuf cs)))) (\<lambda>(w, p, n, err).
      case if n = 0 then (w, 0) else timeNow W w of (w, now) \<Rightarrow> Ret (received cs p n now, w, n, err))"
proof -
  let ?p = "take (nat upTo) (drop (nat (dataEnd cs)) (rxbuf cs))"
  have sub: "sub (rxbuf cs) (dataEnd cs) (dataEnd cs + upTo) = Ret ?p"
    using ok upTo by (simp add: rx_ok_def sub_Ret)
  have len: "int (length ?p) = upTo" using ok upTo by (auto simp: rx_ok_def)
  show ?thesis
  proof (cases "portRead W h w ?p")
    case (Ret r)
    obtain w' p n err where r: "r = (w', p, n, err)" by (cases r)
    have n: "length p = length ?p" "0 \<le> n" "n \<le> int (length p)"
      using W Ret unfolding reader_contract_def r by (auto dest!: spec [where x = h] spec [where x = w] spec [where x = ?p])
    note ok' = received_ok [OF ok _ n(2,3)]
    have "sub (rxbuf (received cs p n now)) (dataEnd (received cs p n now) - n) (dataEnd (received cs p n now)) =
        Ret (take (nat n) (drop (nat (dataEnd cs)) (rxbuf (received cs p n now))))" for now
      using ok' [of now] n len upTo ok by (simp add: rx_ok_def sub_Ret)
    then show ?thesis
      using upTo ok sub pre h
      by (cases "timeNow W w'") (auto simp: read_def rx_ok_def Ret r Let_def runPreproc_def received_def)
  qed (use upTo ok sub h in \<open>auto simp: read_def rx_ok_def\<close>)
qed

lemma read_Ret:
  assumes W: "reader_contract W" and ok: "rx_ok cs" and pre: "preproc cs = None" and "0 < upTo"
    and r: "read W cs w upTo = Ret (cs', w', n, err)"
  shows "rx_ok cs' \<and> same_conn cs cs' \<and> closeErr cs' = closeErr cs \<and> dataStart cs' = dataStart cs \<and>
    dataEnd cs' = dataEnd cs + n \<and> 0 \<le> n \<and> n \<le> upTo \<and>
    (\<exists>xs. pending cs' = pending cs @ xs \<and> int (length xs) = n)"
proof (cases "upTo \<le> 512 - dataEnd cs")
  case True
  let ?p = "take (nat upTo) (drop (nat (dataEnd cs)) (rxbuf cs))"
  have len: "int (length ?p) = upTo" using ok True \<open>0 < upTo\<close> by (auto simp: rx_ok_def)
  have "port cs \<noteq> None" using r ok True \<open>0 < upTo\<close>
    by (cases "port cs") (auto simp: read_def rx_ok_def sub_Ret)
  then obtain h where h: "port cs = Some h" by blast
  from r [unfolded read_eq [OF W ok pre h \<open>0 < upTo\<close> True]] obtain w1 p now where
    p: "portRead W h w ?p = Ret (w1, p, n, err)" and cs': "cs' = received cs p n now"
    by (auto simp: andThen_eq_Ret case_prod_beta)
  have n: "length p = length ?p" "0 \<le> n" "n \<le> int (length p)"
    using W p unfolding reader_contract_def by (auto dest!: spec [where x = h] spec [where x = w] spec [where x = ?p])
  show ?thesis
    using received_ok [OF ok _ n(2,3), of now] n len True unfolding cs' by auto
next
  case False
  then show ?thesis using r ok \<open>0 < upTo\<close> by (auto simp: read_def rx_ok_def)
qed

lemma read_no_panic:
  assumes W: "reader_contract W" and ok: "rx_ok cs" and pre: "preproc cs = None" and "0 < upTo" and "port cs \<noteq> None"
  shows "read W cs w upTo \<noteq> Panic m"
proof (cases "upTo \<le> 512 - dataEnd cs")
  case True
  let ?p = "take (nat upTo) (drop (nat (dataEnd cs)) (rxbuf cs))"
  obtain h where h: "port cs = Some h" using assms(5) by blast
  have "portRead W h w ?p \<noteq> Panic m"
    using W unfolding reader_contract_def by (auto dest!: spec [where x = h] spec [where x = w] spec [where x = ?p])
  then show ?thesis
    by (cases "portRead W h w ?p") (auto simp: read_eq [OF W ok pre h \<open>0 < upTo\<close> True] split: prod.splits)
next
  case False
  then show ?thesis using ok by (simp add: read_def rx_ok_def)
qed

lemma read_nonpos:
  assumes "rx_ok cs" and "upTo \<le> 0"
  shows "\<exists>m. read W cs w upTo = Panic m"
  using assms by (auto simp: read_def rx_ok_def sub_def)

section \<open>Frames\<close>

text \<open>A packet on the line: address, PDU and the CRC of both, low byte first.\<close>

definition rtu_frame :: "uint8 \<Rightarrow> byte list \<Rightarrow> byte list" where
  "rtu_frame a pdu = a # pdu @ [lo8 (generateCRC (a # pdu)), hi8 (generateCRC (a # pdu))]"

lemma length_rtu_frame [simp]: "length (rtu_frame a pdu) = length pdu + 3"
  by (simp add: rtu_frame_def)

text \<open>
  What a returned packet is: the bytes before the new \<open>dataStart\<close>, with an error exactly when they
  are not a frame.
\<close>

definition framed :: "('s, 'p, 'w) connState \<Rightarrow> nat \<Rightarrow> nat \<Rightarrow> uint8 \<Rightarrow> goerror option \<Rightarrow> bool" where
  "framed cs off len a err \<longleftrightarrow> 0 < off \<and> dataStart cs = int (off + len + 2) \<and>
     a = rxbuf cs ! (off - 1) \<and>
     err = (if rxSlice cs (off - 1) (len + 3) = rtu_frame a (rxSlice cs off len) then None
            else Some (CRCError (rxSlice cs (off - 1) (len + 3))))"

lemma frame_iff_crc:
  assumes "length packet = n + 3"
  shows "packet = rtu_frame (packet ! 0) (take n (drop 1 packet)) \<longleftrightarrow>
    be16 (packet ! (n + 2)) (packet ! (n + 1)) = generateCRC (take (n + 1) packet)"
proof -
  obtain a r where p: "packet = a # r" "length r = n + 2" using assms by (cases packet) auto
  let ?d = "take n r"
  have r: "r = ?d @ [r ! n, r ! Suc n]"
    using p(2) append_take_drop_id [of n r] Cons_nth_drop_Suc [of n r] Cons_nth_drop_Suc [of "Suc n" r] by simp
  have "packet = rtu_frame a ?d \<longleftrightarrow>
      [r ! n, r ! Suc n] = [lo8 (generateCRC (a # ?d)), hi8 (generateCRC (a # ?d))]"
    unfolding p(1) rtu_frame_def by (subst r) simp
  also have "\<dots> \<longleftrightarrow> be16 (r ! Suc n) (r ! n) = generateCRC (a # ?d)"
    by (auto dest!: sym [of "be16 _ _"])
  finally show ?thesis by (simp add: p(1))
qed

lemma checkPacket_eq:
  assumes ok: "rx_ok cs" and buf: "buffered cs = int (unat pdulen) + 3"
  shows "\<exists>cs' err. checkPacket cs w pdulen = Ret (cs', w, Some (nat (dataStart cs) + 1, unat pdulen), pending cs ! 0, err) \<and>
    cs' = cs\<lparr>dataStart := dataEnd cs\<rparr> \<and> rx_ok cs' \<and> framed cs' (nat (dataStart cs) + 1) (unat pdulen) (pending cs ! 0) err \<and>
    rxSlice cs' (nat (dataStart cs)) (unat pdulen + 3) = pending cs"
proof -
  define n where "n = unat pdulen"
  have n: "unat pdulen = n" "uint pdulen = int n" by (simp_all only: n_def uint_nat)
  have len: "buffered cs = int n + 3" using buf by (simp only: n)
  let ?s = "nat (dataStart cs)" and ?p = "pending cs"
  have nb: "nat (buffered cs) = n + 3" unfolding len by simp
  have lenp: "length ?p = n + 3" using length_pending [OF ok] nb by simp
  have s: "?s + (n + 3) \<le> 512" "dataStart cs + int n + 3 = dataEnd cs"
    using ok len by (auto simp: rx_ok_def buffered_def)
  have pend: "?p = take (n + 3) (drop ?s (rxbuf cs))" using nb by (simp add: pending_def)
  have nth: "rxbuf cs ! (?s + k) = ?p ! k" if "k < n + 3" for k
    using that s ok by (simp add: pend rx_ok_def)
  have sub: "sub (rxbuf cs) (dataStart cs) (dataEnd cs) = Ret ?p"
    using rxBytes_ok [OF ok] by (simp add: rxBytes_def)
  let ?cs = "cs\<lparr>dataStart := dataEnd cs\<rparr>"
  let ?err = "if be16 (?p ! (n + 2)) (?p ! (n + 1)) \<noteq> generateCRC (take (n + 1) ?p) then Some (CRCError ?p) else None"
  have eq: "checkPacket cs w pdulen = Ret (?cs, w, Some (?s + 1, n), ?p ! 0, ?err)"
    using ok s nth [of 0] lenp by (simp add: checkPacket_def n sub index_def Let_def Uint16LE_def rx_ok_def)
  have "rxSlice ?cs ?s (n + 3) = ?p" by (simp add: rxSlice_def pend)
  moreover have "rxSlice ?cs (?s + 1) n = take n (drop 1 ?p)"
    by (simp add: rxSlice_def pend drop_take add.commute)
  moreover have "rx_ok ?cs" using ok by (simp add: rx_ok_def)
  ultimately have "framed ?cs (?s + 1) n (?p ! 0) ?err \<and> rxSlice ?cs ?s (n + 3) = ?p \<and> rx_ok ?cs"
    using frame_iff_crc [OF lenp] nth [of 0] s ok by (auto simp: framed_def rx_ok_def)
  with eq show ?thesis unfolding n by blast
qed

section \<open>What TryRx returns\<close>

definition rx_result :: "('s, 'p, 'w) connState \<Rightarrow> (nat \<times> nat) option \<Rightarrow> uint8 \<Rightarrow> goerror option \<Rightarrow> bool" where
  "rx_result cs pdu a err \<longleftrightarrow> rx_ok cs \<and>
     (case pdu of None \<Rightarrow> err \<noteq> None
      | Some (off, len) \<Rightarrow> framed cs off len a err \<and> dataStart cs = dataEnd cs)"

lemma sub_tail:
  assumes "rx_ok cs" and "1 \<le> buffered cs"
  shows "sub (rxbuf cs) (dataStart cs + 1) (dataEnd cs) = Ret (drop 1 (pending cs))"
proof -
  have "nat (dataEnd cs - (dataStart cs + 1)) = nat (buffered cs) - 1"
    and "nat (dataStart cs + 1) = Suc (nat (dataStart cs))"
    using assms by (auto simp: rx_ok_def buffered_def nat_diff_distrib)
  then show ?thesis
    using assms by (simp add: rx_ok_def buffered_def sub_Ret pending_def drop_take)
qed

lemma rxPacket_eq:
  assumes "rx_ok cs" and "1 \<le> buffered cs" and "inferLength isResponse (drop 1 (pending cs)) = (fc, pdulen, e)"
  shows "rxPacket W isResponse cs w =
    (if e = Some ErrBadFunctionCode then Ret (cs\<lparr>closeErr := e\<rparr>, w, None, 0, e)
     else andThen (read W cs w (int (unat pdulen) + 3 - buffered cs)) (\<lambda>(cs', w, n, rxerr).
       if rxerr \<noteq> None then Ret (cs', w, None, 0, rxerr)
       else if e \<noteq> None then Ret (cs', w, None, 0, e)
       else if int (unat pdulen) + 3 - buffered cs > n then Ret (cs', w, None, 0, Some ErrMissingPacketData)
       else checkPacket cs' w pdulen))"
  by (simp only: rxPacket_def sub_tail [OF assms(1,2)] andThen.simps assms(3) prod.case Let_def)

lemma rxPacket_Ret:
  assumes W: "reader_contract W" and ok: "rx_ok cs" and pre: "preproc cs = None" and "2 \<le> buffered cs"
    and r: "rxPacket W isResponse cs w = Ret (cs', w', pdu, a, err)"
  shows "same_conn cs cs' \<and> rx_result cs' pdu a err"
proof -
  obtain fc pdulen e where inf: "inferLength isResponse (drop 1 (pending cs)) = (fc, pdulen, e)"
    by (cases "inferLength isResponse (drop 1 (pending cs))") auto
  note eq = rxPacket_eq [OF ok _ inf, of W w]
  show ?thesis
  proof (cases "e = Some ErrBadFunctionCode")
    case True
    then show ?thesis
      using r ok assms(4) by (auto simp: eq same_conn_def rx_result_def rx_ok_def)
  next
    case False
    let ?miss = "int (unat pdulen) + 3 - buffered cs"
    obtain cs1 w1 n rxerr where rd: "read W cs w ?miss = Ret (cs1, w1, n, rxerr)"
      and rest: "(if rxerr \<noteq> None then Ret (cs1, w1, None, 0, rxerr)
        else if e \<noteq> None then Ret (cs1, w1, None, 0, e)
        else if ?miss > n then Ret (cs1, w1, None, 0, Some ErrMissingPacketData)
        else checkPacket cs1 w1 pdulen) = Ret (cs', w', pdu, a, err)"
      using r False eq assms(4) by (auto simp: andThen_eq_Ret)
    have "0 < ?miss" using read_nonpos [OF ok, of ?miss W w] rd by (cases "0 < ?miss") auto
    note R = read_Ret [OF W ok pre this rd]
    show ?thesis
    proof (cases "rxerr = None \<and> e = None \<and> \<not> ?miss > n")
      case True
      then have "buffered cs1 = int (unat pdulen) + 3" using R by (auto simp: buffered_def)
      from checkPacket_eq [OF _ this, of w1] R obtain cs2 e2 where
        ck: "checkPacket cs1 w1 pdulen = Ret (cs2, w1, Some (nat (dataStart cs1) + 1, unat pdulen), pending cs1 ! 0, e2)"
        and cs2: "cs2 = cs1\<lparr>dataStart := dataEnd cs1\<rparr>" "rx_ok cs2"
          "framed cs2 (nat (dataStart cs1) + 1) (unat pdulen) (pending cs1 ! 0) e2"
        by blast
      have "same_conn cs1 cs2" "dataStart cs2 = dataEnd cs2" by (simp_all add: cs2(1) same_conn_def)
      with ck cs2(2,3) True rest R same_conn_trans show ?thesis by (auto simp: rx_result_def)
    next
      case False
      with rest R show ?thesis by (auto simp: rx_result_def split: if_splits)
    qed
  qed
qed

lemma TryRx_Ret:
  assumes W: "reader_contract W" and ok: "rx_ok cs" and pre: "preproc cs = None"
    and r: "TryRx W isResponse cs w = Ret (cs', w', pdu, a, err)"
  shows "same_conn cs cs' \<and> rx_result cs' pdu a err"
proof -
  obtain cs0 where cs0: "(if dataEnd cs > 256 \<or> buffered cs = 0 then resetRxBuf cs else Ret cs) = Ret cs0"
      "rx_ok cs0" "same_conn cs cs0"
    using wrap_ok [OF ok] by blast
  then have pre0: "preproc cs0 = None" using pre by (simp add: same_conn_def)
  have r0: "(if buffered cs0 < 2 then
      andThen (read W cs0 w (2 - buffered cs0)) (\<lambda>(cs', w, n, err).
        if buffered cs0 + n < 2 then
          if err \<noteq> None then Ret (cs', w, None, 0, err) else Ret (cs', w, None, 0, Some ErrMissingPacketData)
        else rxPacket W isResponse cs' w)
      else rxPacket W isResponse cs0 w) = Ret (cs', w', pdu, a, err)"
    using r by (auto simp: TryRx_def cs0(1) andThen_eq_Ret split: if_splits)
  show ?thesis
  proof (cases "buffered cs0 < 2")
    case True
    then obtain cs1 w1 n e where rd: "read W cs0 w (2 - buffered cs0) = Ret (cs1, w1, n, e)"
      and rest: "(if buffered cs0 + n < 2 then
          if e \<noteq> None then Ret (cs1, w1, None, 0, e) else Ret (cs1, w1, None, 0, Some ErrMissingPacketData)
        else rxPacket W isResponse cs1 w1) = Ret (cs', w', pdu, a, err)"
      using r0 by (auto simp: andThen_eq_Ret)
    have R: "rx_ok cs1 \<and> same_conn cs0 cs1 \<and> buffered cs1 = buffered cs0 + n"
      using read_Ret [OF W cs0(2) pre0 _ rd] True by (auto simp: buffered_def)
    then have "preproc cs1 = None" using pre0 by (simp add: same_conn_def)
    with rxPacket_Ret [OF W _ this, of isResponse w1 cs' w' pdu a err] rest R same_conn_trans [OF cs0(3)] same_conn_trans
    show ?thesis by (fastforce simp: rx_result_def split: if_splits)
  next
    case False
    then show ?thesis
      using rxPacket_Ret [OF W cs0(2) pre0 _, of isResponse w cs' w' pdu a err] r0 same_conn_trans [OF cs0(3)] by auto
  qed
qed

end
