(* ===== verification/Rtu_Line.thy ===== *)
theory Rtu_Line
  imports Rtu_State
begin

text \<open>
  Receiving from a line that delivers what is asked for: the frames \<open>TryRx\<close> returns when the bytes
  arrive, for both ways of inferring their length.  \<open>lineWorld\<close> is a serial line with an inbox and an
  outbox, the concrete port of the examples.
\<close>

section \<open>Lines\<close>

text \<open>
  The port \<open>h\<close> hands out the bytes of \<open>inb\<close> in order and fills the slice while there are enough; reading
  the clock receives and sends nothing.
\<close>

definition line_reads :: "('p, 'w) World \<Rightarrow> 'p \<Rightarrow> ('w \<Rightarrow> byte list) \<Rightarrow> ('w \<Rightarrow> 'o) \<Rightarrow> bool" where
  "line_reads W h inb obs \<longleftrightarrow> reader_contract W \<and>
     (\<forall>w p. p \<noteq> [] \<and> length p \<le> length (inb w) \<longrightarrow>
       (\<exists>w'. portRead W h w p = Ret (w', take (length p) (inb w), int (length p), None) \<and>
         inb w' = drop (length p) (inb w) \<and> obs w' = obs w)) \<and>
     (\<forall>w. inb (fst (timeNow W w)) = inb w \<and> obs (fst (timeNow W w)) = obs w)"

record Line =
  inbox :: "byte list"
  outbox :: "byte list"
  clock :: int

definition lineWorld :: "(unit, Line) World" where
  "lineWorld = \<lparr>
     portRead = \<lambda>h w p. if inbox w = [] then Blocks
       else let k = min (length p) (length (inbox w)) in
         Ret (w\<lparr>inbox := drop k (inbox w)\<rparr>, take k (inbox w) @ drop k p, int k, None),
     portWrite = \<lambda>h w p. Ret (w\<lparr>outbox := outbox w @ p\<rparr>, int (length p), None),
     timeNow = \<lambda>w. (w\<lparr>clock := clock w + 1\<rparr>, clock w),
     timeSleep = \<lambda>w d. w\<lparr>clock := clock w + max 0 d\<rparr>\<rparr>"

lemma lineWorld_contract: "reader_contract lineWorld"
  by (auto simp: reader_contract_def lineWorld_def Let_def)

lemma lineWorld_reads: "line_reads lineWorld h inbox outbox"
  using lineWorld_contract by (auto simp: line_reads_def lineWorld_def min_def Let_def)

text \<open>Writing to the line appends to \<open>out\<close> and receives nothing.\<close>

definition line_writes :: "('p, 'w) World \<Rightarrow> 'p \<Rightarrow> ('w \<Rightarrow> byte list) \<Rightarrow> ('w \<Rightarrow> byte list) \<Rightarrow> bool" where
  "line_writes W h inb out \<longleftrightarrow> (\<forall>w b. \<exists>w' n. portWrite W h w b = Ret (w', n, None) \<and> inb w' = inb w \<and> out w' = out w @ b)"

lemma lineWorld_writes: "line_writes lineWorld h inbox outbox"
  by (auto simp: line_writes_def lineWorld_def)

lemma writePort_line:
  assumes "line_writes W h inb out" and "port cs = Some h"
  obtains w' where "writePort W cs w b = Ret (w', None)" and "inb w' = inb w" and "out w' = out w @ b"
  using assms unfolding line_writes_def writePort_def by (metis (no_types, lifting) andThen.simps(1) case_prod_conv option.simps(5))

section \<open>Reading from a line\<close>

lemma read_full:
  assumes L: "line_reads W h inb obs" and ok: "rx_ok cs" and pre: "preproc cs = None" and h: "port cs = Some h"
    and k: "0 < k" "int k \<le> 512 - dataEnd cs" "k \<le> length (inb w)"
  shows "\<exists>cs' w'. read W cs w (int k) = Ret (cs', w', int k, None) \<and> rx_ok cs' \<and> same_conn cs cs' \<and>
    closeErr cs' = closeErr cs \<and> dataStart cs' = dataStart cs \<and> dataEnd cs' = dataEnd cs + int k \<and>
    pending cs' = pending cs @ take k (inb w) \<and> inb w' = drop k (inb w) \<and> obs w' = obs w"
proof -
  let ?p = "take (nat (int k)) (drop (nat (dataEnd cs)) (rxbuf cs))"
  have W: "reader_contract W" using L by (simp add: line_reads_def)
  have len: "length ?p = k" using ok k(2) by (auto simp: rx_ok_def)
  then have "?p \<noteq> []" using k(1) by auto
  with L len k(3) obtain w1 where w1: "portRead W h w ?p = Ret (w1, take k (inb w), int k, None)"
      "inb w1 = drop k (inb w)" "obs w1 = obs w"
    unfolding line_reads_def by metis
  obtain w2 now where now: "timeNow W w1 = (w2, now)" by (cases "timeNow W w1")
  then have "inb w2 = inb w1" "obs w2 = obs w1"
    using L unfolding line_reads_def by (metis fst_conv)+
  moreover have "read W cs w (int k) = Ret (received cs (take k (inb w)) (int k) now, w2, int k, None)"
    using read_eq [OF W ok pre h, of "int k" w] k w1(1) now by simp
  moreover have "int (length (take k (inb w))) \<le> 512 - dataEnd cs" "int k \<le> int (length (take k (inb w)))"
    using k by simp_all
  ultimately show ?thesis
    using received_ok [OF ok, of "take k (inb w)" "int k" now] w1 by auto
qed

text \<open>The rest of a packet whose length is known arrives.\<close>

lemma rxPacket_complete:
  assumes L: "line_reads W h inb obs" and ok: "rx_ok cs" and pre: "preproc cs = None" and h: "port cs = Some h"
    and frame: "pending cs @ inb w = rtu_frame a pdu @ rest"
    and len: "2 \<le> length (pending cs)" "length (pending cs) < length pdu + 3" "length pdu < 65536"
      "dataStart cs + int (length pdu) + 3 \<le> 512"
    and inf: "inferLength isResponse (drop 1 (pending cs)) = (fc, word_of_nat (length pdu), None)"
  shows "\<exists>cs' w'. rxPacket W isResponse cs w = Ret (cs', w', Some (nat (dataStart cs) + 1, length pdu), a, None) \<and>
    rx_ok cs' \<and> same_conn cs cs' \<and> closeErr cs' = closeErr cs \<and> dataStart cs' = dataEnd cs' \<and>
    dataEnd cs' = dataStart cs + int (length pdu) + 3 \<and>
    rxSlice cs' (nat (dataStart cs) + 1) (length pdu) = pdu \<and> inb w' = rest \<and> obs w' = obs w"
proof -
  let ?n = "length pdu" and ?k = "length pdu + 3 - length (pending cs)"
  have n: "unat (word_of_nat ?n :: uint16) = ?n" using len(3) by (simp add: unat_of_nat)
  have b: "buffered cs = int (length (pending cs))"
    using length_pending [OF ok] ok by (simp add: rx_ok_def buffered_def)
  have miss: "int (unat (word_of_nat ?n :: uint16)) + 3 - buffered cs = int ?k"
    using len(2) by (simp only: n b)
  have "length (pending cs) + length (inb w) = ?n + 3 + length rest"
    using arg_cong [OF frame, of length] by simp
  then have k: "0 < ?k" "?k \<le> length (inb w)" "int ?k \<le> 512 - dataEnd cs"
    using len b by (auto simp: buffered_def)
  obtain cs1 w1 where rd: "read W cs w (int ?k) = Ret (cs1, w1, int ?k, None)" "rx_ok cs1" "same_conn cs cs1"
      "closeErr cs1 = closeErr cs" "dataStart cs1 = dataStart cs" "dataEnd cs1 = dataEnd cs + int ?k"
      "pending cs1 = pending cs @ take ?k (inb w)" "inb w1 = drop ?k (inb w)" "obs w1 = obs w"
    using read_full [OF L ok pre h k(1,3,2)] by blast
  have "take (?n + 3) (pending cs @ inb w) = rtu_frame a pdu" by (simp add: frame)
  then have frame1: "pending cs1 = rtu_frame a pdu" using len(2) by (simp add: rd(7))
  have "drop (?n + 3) (pending cs @ inb w) = rest" by (simp add: frame)
  then have rest1: "inb w1 = rest" using len(2) by (simp add: rd(8))
  have buf1: "buffered cs1 = int (unat (word_of_nat ?n :: uint16)) + 3"
    using rd(5,6) b len(2) by (simp only: n buffered_def)
  obtain cs2 err where ck: "checkPacket cs1 w1 (word_of_nat ?n) =
      Ret (cs2, w1, Some (nat (dataStart cs) + 1, ?n), a, err)" "cs2 = cs1\<lparr>dataStart := dataEnd cs1\<rparr>" "rx_ok cs2"
      "framed cs2 (nat (dataStart cs) + 1) ?n a err" "rxSlice cs2 (nat (dataStart cs)) (?n + 3) = rtu_frame a pdu"
    using checkPacket_eq [OF rd(2) buf1, of w1] unfolding n frame1 rd(5) by (auto simp: rtu_frame_def)
  have "rxSlice cs2 (nat (dataStart cs) + 1) ?n = take ?n (drop 1 (rxSlice cs2 (nat (dataStart cs)) (?n + 3)))"
    by (simp add: rxSlice_def drop_take add.commute)
  then have pdu: "rxSlice cs2 (nat (dataStart cs) + 1) ?n = pdu" using ck(5) by (simp add: rtu_frame_def)
  then have "err = None" using ck(4,5) by (simp add: framed_def)
  moreover have "same_conn cs cs2" "dataStart cs2 = dataEnd cs2" "closeErr cs2 = closeErr cs"
    "dataEnd cs2 = dataStart cs + int ?n + 3"
    using rd(3,4,6) b len(2) by (simp_all add: ck(2) same_conn_def buffered_def)
  moreover have "rxPacket W isResponse cs w = Ret (cs2, w1, Some (nat (dataStart cs) + 1, ?n), a, err)"
    using rxPacket_eq [OF ok _ inf, of W w, unfolded miss] len(1) rd(1) ck(1) by (simp add: b)
  ultimately show ?thesis using ck(3) pdu rest1 rd(9) by blast
qed

text \<open>The bytes that tell the length of a packet arrive.\<close>

lemma rxPacket_missing:
  assumes L: "line_reads W h inb obs" and ok: "rx_ok cs" and pre: "preproc cs = None" and h: "port cs = Some h"
    and inf: "inferLength isResponse (drop 1 (pending cs)) = (fc, m, Some ErrMissingPacketData)"
    and k: "2 \<le> length (pending cs)" "unat m + 3 = length (pending cs) + k" "0 < k" "k \<le> length (inb w)"
      "int k \<le> 512 - dataEnd cs"
  shows "\<exists>cs' w'. rxPacket W isResponse cs w = Ret (cs', w', None, 0, Some ErrMissingPacketData) \<and>
    rx_ok cs' \<and> same_conn cs cs' \<and> closeErr cs' = closeErr cs \<and> dataStart cs' = dataStart cs \<and>
    dataEnd cs' = dataEnd cs + int k \<and> pending cs' = pending cs @ take k (inb w) \<and> inb w' = drop k (inb w) \<and> obs w' = obs w"
proof -
  have b: "buffered cs = int (length (pending cs))"
    using length_pending [OF ok] ok by (simp add: rx_ok_def buffered_def)
  have "int (unat m) = int (length (pending cs)) + int k - 3" using k(2) by linarith
  then have miss: "int (unat m) + 3 - buffered cs = int k" by (simp only: b)
  have "1 \<le> buffered cs" using k(1) b by simp
  from rxPacket_eq [OF ok this inf, of W w] read_full [OF L ok pre h k(3,5,4)]
  show ?thesis unfolding miss by auto
qed

section \<open>TryRx on a line\<close>

lemma TryRx_deferred:
  assumes "rx_ok cs'"
  shows "andThen (Ret (cs', w', r)) (\<lambda>(cs, w, r). andThen (rxBytes cs) (\<lambda>_. Ret (cs, w, r))) = Ret (cs', w', r)"
  using assms by simp

text \<open>From an empty buffer the first two bytes are read to its start.\<close>

lemma TryRx_start:
  assumes L: "line_reads W h inb obs" and ok: "rx_ok cs" and pre: "preproc cs = None" and h: "port cs = Some h"
    and "\<not> murx cs" and "dataStart cs = dataEnd cs" and "2 \<le> length (inb w)"
  shows "\<exists>cs1 w1. TryRx W isResponse cs w =
      andThen (rxPacket W isResponse cs1 w1) (\<lambda>(cs, w, r). andThen (rxBytes cs) (\<lambda>_. Ret (cs, w, r))) \<and>
    rx_ok cs1 \<and> same_conn cs cs1 \<and> closeErr cs1 = closeErr cs \<and> dataStart cs1 = 0 \<and> dataEnd cs1 = 2 \<and>
    pending cs1 = take 2 (inb w) \<and> inb w1 = drop 2 (inb w) \<and> obs w1 = obs w"
proof -
  let ?cs = "cs\<lparr>dataEnd := 0, dataStart := 0\<rparr>"
  have reset: "resetRxBuf cs = Ret ?cs" using assms(6) by (simp add: resetRxBuf_def)
  have "rx_ok ?cs" "preproc ?cs = None" "port ?cs = Some h" "same_conn cs ?cs" "pending ?cs = []"
    using ok pre h by (simp_all add: rx_ok_def same_conn_def pending_def buffered_def)
  moreover from this read_full [OF L, of ?cs 2 w] assms(7) obtain cs1 w1 where
    rd: "read W ?cs w 2 = Ret (cs1, w1, 2, None)" "rx_ok cs1" "same_conn ?cs cs1" "closeErr cs1 = closeErr cs"
      "dataStart cs1 = 0" "dataEnd cs1 = 2" "pending cs1 = take 2 (inb w)" "inb w1 = drop 2 (inb w)" "obs w1 = obs w"
    by auto
  moreover have "TryRx W isResponse cs w =
      andThen (rxPacket W isResponse cs1 w1) (\<lambda>(cs, w, r). andThen (rxBytes cs) (\<lambda>_. Ret (cs, w, r)))"
    using assms(5,6) rd(1) by (simp add: TryRx_def reset buffered_def)
  ultimately show ?thesis using same_conn_trans by blast
qed

lemma TryRx_continue:
  assumes "rx_ok cs" and "\<not> murx cs" and "2 \<le> buffered cs" and "dataEnd cs \<le> 256"
  shows "TryRx W isResponse cs w =
      andThen (rxPacket W isResponse cs w) (\<lambda>(cs, w, r). andThen (rxBytes cs) (\<lambda>_. Ret (cs, w, r)))"
  using assms by (simp add: TryRx_def)

lemma take_2_frame: "pdu \<noteq> [] \<Longrightarrow> take 2 (rtu_frame a pdu @ rest) = [a, hd pdu]"
  by (cases pdu) (simp_all add: rtu_frame_def)

text \<open>A packet whose function code tells its length is received by one call.\<close>

lemma TryRx_fixed:
  assumes L: "line_reads W h inb obs" and ok: "rx_ok cs" and pre: "preproc cs = None" and h: "port cs = Some h"
    and free: "\<not> murx cs" and empty: "dataStart cs = dataEnd cs" and inb: "inb w = rtu_frame a pdu @ rest"
    and pdu: "pdu \<noteq> []" "length pdu \<le> 509"
    and inf: "inferLength isResponse [hd pdu] = (fc, word_of_nat (length pdu), None)"
  shows "\<exists>cs' w'. TryRx W isResponse cs w = Ret (cs', w', Some (1, length pdu), a, None) \<and> rx_ok cs' \<and> same_conn cs cs' \<and>
    closeErr cs' = closeErr cs \<and> dataStart cs' = dataEnd cs' \<and> rxSlice cs' 1 (length pdu) = pdu \<and> inb w' = rest \<and> obs w' = obs w"
proof -
  have "2 \<le> length (inb w)" by (simp add: inb)
  from TryRx_start [OF L ok pre h free empty this, of isResponse] obtain cs1 w1 where
    c: "TryRx W isResponse cs w = andThen (rxPacket W isResponse cs1 w1) (\<lambda>(cs, w, r). andThen (rxBytes cs) (\<lambda>_. Ret (cs, w, r)))"
      "rx_ok cs1" "same_conn cs cs1" "closeErr cs1 = closeErr cs" "dataStart cs1 = 0" "dataEnd cs1 = 2"
      "pending cs1 = take 2 (inb w)" "inb w1 = drop 2 (inb w)" "obs w1 = obs w"
    by blast
  have pend: "pending cs1 = [a, hd pdu]" using c(7) take_2_frame [OF pdu(1), of a rest] by (simp add: inb)
  have "pending cs1 @ inb w1 = rtu_frame a pdu @ rest" by (simp add: c(7,8) inb)
  moreover have "preproc cs1 = None" "port cs1 = Some h" using c(3) pre h by (simp_all add: same_conn_def)
  ultimately obtain cs2 w2 where d: "rxPacket W isResponse cs1 w1 = Ret (cs2, w2, Some (1, length pdu), a, None)"
      "rx_ok cs2" "same_conn cs1 cs2" "closeErr cs2 = closeErr cs1" "dataStart cs2 = dataEnd cs2"
      "rxSlice cs2 1 (length pdu) = pdu" "inb w2 = rest" "obs w2 = obs w1"
    using rxPacket_complete [OF L c(2), of w1 a pdu rest isResponse fc] pdu inf by (auto simp: pend c(5))
  have "TryRx W isResponse cs w = Ret (cs2, w2, Some (1, length pdu), a, None)"
    using c(1) d(1) TryRx_deferred [OF d(2)] by simp
  then show ?thesis using c(4,9) d same_conn_trans [OF c(3) d(3)] by auto
qed

text \<open>
  A packet whose length needs \<open>k\<close> bytes of the PDU is received by two calls: the first asks for them,
  reports the missing data and keeps what has arrived.
\<close>

lemma TryRx_two_calls:
  assumes L: "line_reads W h inb obs" and ok: "rx_ok cs" and pre: "preproc cs = None" and h: "port cs = Some h"
    and free: "\<not> murx cs" and empty: "dataStart cs = dataEnd cs" and inb: "inb w = rtu_frame a pdu @ rest"
    and pdu: "pdu \<noteq> []" "length pdu \<le> 509" and m: "0 < unat m" "unat m < length pdu" "unat m \<le> 253"
    and inf1: "inferLength isResponse [hd pdu] = (fc1, m, Some ErrMissingPacketData)"
    and inf2: "inferLength isResponse (take (unat m + 2) (pdu @ ck)) = (fc, word_of_nat (length pdu), None)"
    and ck: "ck = drop (length pdu + 1) (rtu_frame a pdu)"
  shows "\<exists>cs1 w1. TryRx W isResponse cs w = Ret (cs1, w1, None, 0, Some ErrMissingPacketData) \<and> same_conn cs cs1 \<and>
    rx_ok cs1 \<and> closeErr cs1 = closeErr cs \<and> obs w1 = obs w \<and>
    (\<exists>cs' w'. TryRx W isResponse cs1 w1 = Ret (cs', w', Some (1, length pdu), a, None) \<and> rx_ok cs' \<and> same_conn cs cs' \<and>
      closeErr cs' = closeErr cs \<and> dataStart cs' = dataEnd cs' \<and> rxSlice cs' 1 (length pdu) = pdu \<and> inb w' = rest \<and> obs w' = obs w)"
proof -
  let ?k = "unat m + 1"
  have "2 \<le> length (inb w)" by (simp add: inb)
  from TryRx_start [OF L ok pre h free empty this, of isResponse] obtain cs0 w0 where
    c: "TryRx W isResponse cs w = andThen (rxPacket W isResponse cs0 w0) (\<lambda>(cs, w, r). andThen (rxBytes cs) (\<lambda>_. Ret (cs, w, r)))"
      "rx_ok cs0" "same_conn cs cs0" "closeErr cs0 = closeErr cs" "dataStart cs0 = 0" "dataEnd cs0 = 2"
      "pending cs0 = take 2 (inb w)" "inb w0 = drop 2 (inb w)" "obs w0 = obs w"
    by blast
  have pend: "pending cs0 = [a, hd pdu]" using c(7) take_2_frame [OF pdu(1), of a rest] by (simp add: inb)
  have "int (unat m) \<le> 253" using m(3) by linarith
  then have um: "uint m \<le> 253" by (simp only: uint_nat)
  have conn0: "preproc cs0 = None" "port cs0 = Some h" "\<not> murx cs0" using c(3) pre h free by (simp_all add: same_conn_def)
  have inf0: "inferLength isResponse (drop 1 (pending cs0)) = (fc1, m, Some ErrMissingPacketData)" using inf1 pend by simp
  obtain cs1 w1 where d: "rxPacket W isResponse cs0 w0 = Ret (cs1, w1, None, 0, Some ErrMissingPacketData)"
      "rx_ok cs1" "same_conn cs0 cs1" "closeErr cs1 = closeErr cs0" "dataStart cs1 = 0" "dataEnd cs1 = 2 + int ?k"
      "pending cs1 = pending cs0 @ take ?k (inb w0)" "inb w1 = drop ?k (inb w0)" "obs w1 = obs w0"
    using rxPacket_missing [OF L c(2) conn0(1,2) inf0, of ?k w0] m um pend c(5,6) by (auto simp: c(8) inb)
  have conn1: "preproc cs1 = None" "port cs1 = Some h" "\<not> murx cs1" using d(3) conn0 by (simp_all add: same_conn_def)
  have all: "pending cs1 @ inb w1 = rtu_frame a pdu @ rest"
    by (simp only: d(7,8) append_assoc append_take_drop_id c(7,8) inb)
  have len1: "length (pending cs1) = unat m + 3" using m by (simp add: d(7) pend c(8) inb)
  have frame: "rtu_frame a pdu = a # pdu @ ck" by (simp add: ck rtu_frame_def)
  have lck: "length ck = 2" by (simp add: ck)
  have "pending cs1 = take (unat m + 3) (pending cs1 @ inb w1)" using len1 by simp
  also have "\<dots> = a # take (unat m + 2) (pdu @ ck)" using m by (simp add: all frame numeral_3_eq_3 lck)
  finally have inf: "inferLength isResponse (drop 1 (pending cs1)) = (fc, word_of_nat (length pdu), None)"
    using inf2 by simp
  obtain cs2 w2 where e: "rxPacket W isResponse cs1 w1 = Ret (cs2, w2, Some (1, length pdu), a, None)"
      "rx_ok cs2" "same_conn cs1 cs2" "closeErr cs2 = closeErr cs1" "dataStart cs2 = dataEnd cs2"
      "rxSlice cs2 1 (length pdu) = pdu" "inb w2 = rest" "obs w2 = obs w1"
    using rxPacket_complete [OF L d(2) conn1(1,2) all _ _ _ _ inf] pdu m len1 by (auto simp: d(5))
  have "TryRx W isResponse cs1 w1 = Ret (cs2, w2, Some (1, length pdu), a, None)"
    using TryRx_continue [OF d(2) conn1(3), of W isResponse w1] TryRx_deferred [OF e(2)] e(1) d(5,6) m um
    by (simp add: buffered_def)
  moreover have "TryRx W isResponse cs w = Ret (cs1, w1, None, 0, Some ErrMissingPacketData)"
    using c(1) d(1) TryRx_deferred [OF d(2)] by simp
  moreover have "same_conn cs cs1" "same_conn cs cs2"
    using same_conn_trans [OF c(3) d(3)] same_conn_trans [OF same_conn_trans [OF c(3) d(3)] e(3)] by auto
  ultimately show ?thesis using c d e by auto
qed

end
