(* ===== verification/Rtu_Receive.thy ===== *)
theory Rtu_Receive
  imports Rtu_Line
begin

text \<open>
  What receiving guarantees: the soundness of the packets \<open>TryRx\<close> returns, when the client's side
  does not panic and when it does, and the states in which the server's side panics or stops making progress.
\<close>

section \<open>Soundness\<close>

text \<open>
  C10. Whatever the port delivers within the contract of \<open>io.Reader\<close>, \<open>TryRx\<close> keeps the bounds of the receive
  buffer, and what it returns is sound: without an error the returned slice is the PDU of a frame with a
  correct CRC and the address of that frame, and a packet with a wrong CRC is returned with \<open>CRCError\<close>
  and the packet itself.  A returned packet leaves no bytes in the buffer.
\<close>

theorem tryrx_sound:
  assumes "reader_contract W" and "rx_ok cs" and "preproc cs = None"
    and "TryRx W isResponse cs w = Ret (cs', w', pdu, a, err)"
  shows "rx_ok cs' \<and> port cs' = port cs \<and> data cs' = data cs \<and>
    (pdu = None \<longrightarrow> err \<noteq> None) \<and>
    (\<forall>off len. pdu = Some (off, len) \<longrightarrow>
      0 < off \<and> off + len + 2 \<le> 512 \<and> dataStart cs' = int (off + len + 2) \<and> dataEnd cs' = dataStart cs' \<and>
      (err = None \<longrightarrow> rxSlice cs' (off - 1) (len + 3) = rtu_frame a (rxSlice cs' off len)) \<and>
      (err \<noteq> None \<longrightarrow> err = Some (CRCError (rxSlice cs' (off - 1) (len + 3))) \<and>
        rxSlice cs' (off - 1) (len + 3) \<noteq> rtu_frame a (rxSlice cs' off len)))"
proof -
  have R: "same_conn cs cs'" "rx_result cs' pdu a err" using TryRx_Ret [OF assms] by auto
  then have ok: "rx_ok cs'" "port cs' = port cs" "data cs' = data cs" "pdu = None \<longrightarrow> err \<noteq> None"
    by (auto simp: rx_result_def same_conn_def)
  have "0 < off \<and> off + len + 2 \<le> 512 \<and> dataStart cs' = int (off + len + 2) \<and> dataEnd cs' = dataStart cs' \<and>
      (err = None \<longrightarrow> rxSlice cs' (off - 1) (len + 3) = rtu_frame a (rxSlice cs' off len)) \<and>
      (err \<noteq> None \<longrightarrow> err = Some (CRCError (rxSlice cs' (off - 1) (len + 3))) \<and>
        rxSlice cs' (off - 1) (len + 3) \<noteq> rtu_frame a (rxSlice cs' off len))"
    if "pdu = Some (off, len)" for off len
    using R(2) that ok(1) by (auto simp: rx_result_def framed_def rx_ok_def split: if_splits)
  with ok show ?thesis by blast
qed


text \<open>A connection with an open port and nothing received, for examples.\<close>

definition demoConn :: "(unit, unit, Line) connState" where
  "demoConn = zeroConn\<lparr>port := Some ()\<rparr>"

lemma demoConn_ok: "rx_ok demoConn" "preproc demoConn = None" "port demoConn = Some ()" "\<not> murx demoConn"
    "dataStart demoConn = dataEnd demoConn"
  by (simp_all add: demoConn_def zeroConn_def rx_ok_def)

theorem tryrx_sound_witness:
  "\<exists>cs' w'. TryRx lineWorld False demoConn \<lparr>inbox = rtu_frame 17 [3, 0, 0, 0, 1], outbox = [], clock = 0\<rparr> =
      Ret (cs', w', Some (1, 5), 17, None) \<and> rxSlice cs' 0 8 = rtu_frame 17 (rxSlice cs' 1 5) \<and> dataStart cs' = 8"
proof -
  let ?w = "\<lparr>inbox = rtu_frame 17 [3, 0, 0, 0, 1], outbox = [], clock = 0\<rparr>"
  have inf: "inferLength False [hd [3, 0, 0, 0, 1]] = (3, word_of_nat (length [3 :: byte, 0, 0, 0, 1]), None)"
    by (simp add: inferLength_def InferRequestPacketLength_def)
  have five: "length [3 :: byte, 0, 0, 0, 1] = 5" by simp
  obtain cs' w' where r: "TryRx lineWorld False demoConn ?w = Ret (cs', w', Some (1, 5), 17, None)"
    using TryRx_fixed [OF lineWorld_reads demoConn_ok _ _ _ inf, of ?w 17 "[]", unfolded five] by auto
  show ?thesis
    using tryrx_sound [OF lineWorld_contract demoConn_ok(1,2) r] r by auto
qed

section \<open>The client's side does not panic\<close>

text \<open>A port that reports an error only when it has read nothing.\<close>

definition quiet_reader :: "('p, 'w) World \<Rightarrow> bool" where
  "quiet_reader W \<longleftrightarrow> (\<forall>h w p w' p' n e. portRead W h w p = Ret (w', p', n, Some e) \<longrightarrow> n = 0)"

text \<open>
  What is buffered of a response.  It is less than the packet its first bytes announce, so that \<open>read\<close> is
  never called with nothing to read; without \<open>strict\<close> it may also be the whole packet.
\<close>

definition awaiting :: "bool \<Rightarrow> byte list \<Rightarrow> bool" where
  "awaiting strict b \<longleftrightarrow> length b < 2 \<or>
     (case inferLength True (drop 1 b) of (fc, n, e) \<Rightarrow>
        e = Some ErrBadFunctionCode \<or> length b < unat n + 3 \<or> \<not> strict \<and> length b = unat n + 3)"

lemma awaiting_short: "length b \<le> 2 \<Longrightarrow> awaiting strict b"
  by (cases "inferLength True (drop 1 b)") (auto simp: awaiting_def)

lemma awaiting_weaken: "awaiting True b \<Longrightarrow> awaiting strict b"
  by (auto simp: awaiting_def split: prod.splits)

lemma infer_response_two: "InferResponsePacketLength (x # y # s) = InferResponsePacketLength (x # y # s')"
  by (simp add: InferResponsePacketLength_def Let_def)

lemma infer_response_more:
  assumes "InferResponsePacketLength b = (fc, n, None)"
  shows "InferResponsePacketLength (b @ c) = (fc, n, None)"
proof (cases b)
  case Nil
  then show ?thesis using assms by (simp add: InferResponsePacketLength_def)
next
  case (Cons x r)
  show ?thesis
  proof (cases r)
    case Nil
    have "InferResponsePacketLength [x] = (fc, n, None)" using assms Cons Nil by simp
    then have "InferResponsePacketLength (x # c) = (fc, n, None)"
      by (auto simp: InferResponsePacketLength_def Let_def split: if_split_asm)
    then show ?thesis using Cons Nil by simp
  next
    case (Cons y s)
    then show ?thesis using assms \<open>b = x # r\<close> infer_response_two [of x y "s @ c" s] by simp
  qed
qed

lemma unat_plus_byte:
  fixes c :: byte
  shows "unat (2 + ucast c :: uint16) = 2 + unat c" and "unat (3 + ucast c :: uint16) = 3 + unat c"
proof -
  have "unat (ucast c :: uint16) = unat c" by (simp add: unsigned_ucast_eq take_bit_nat_eq_self unsigned_less [of c, THEN order.strict_trans])
  moreover have "unat c < 256" using unsigned_less [of c] by simp
  ultimately show "unat (2 + ucast c :: uint16) = 2 + unat c" and "unat (3 + ucast c :: uint16) = 3 + unat c"
    by (simp_all add: unat_word_ariths)
qed

lemma infer_response_missing:
  assumes "InferResponsePacketLength b = (fc, n, Some e)" and "b \<noteq> []" and "e \<noteq> ErrBadFunctionCode"
  shows "length b = 1 \<and> n = 1 \<and> (\<exists>fc' n'. InferResponsePacketLength (b @ c # d) = (fc', n', None) \<and> 2 \<le> unat n')"
proof (cases b)
  case (Cons x r)
  show ?thesis
  proof (cases r)
    case Nil
    then have "InferResponsePacketLength [x] = (fc, n, Some e)" using assms(1) Cons by simp
    then show ?thesis
      using assms(3) Cons Nil unat_plus_byte [of c]
      by (auto simp: InferResponsePacketLength_def Let_def add.commute [of "ucast c" 2] split: if_split_asm)
  next
    case (Cons y s)
    then show ?thesis
      using assms \<open>b = x # r\<close> by (simp add: InferResponsePacketLength_def Let_def split: if_split_asm)
  qed
qed (use assms in simp)

lemma awaiting_response_more:
  assumes "inferLength True (drop 1 b) = (fc, n, e)" and "2 \<le> length b" and "e \<noteq> Some ErrBadFunctionCode"
    and "length b + length xs < unat n + 3 \<or> (e \<noteq> None \<or> \<not> strict) \<and> length b + length xs \<le> unat n + 3"
  shows "awaiting strict (b @ xs)"
proof (cases e)
  case None
  then have "inferLength True (drop 1 (b @ xs)) = (fc, n, None)"
    using infer_response_more [of "drop 1 b" fc n xs] assms(1,2) by (simp add: inferLength_def)
  then show ?thesis using assms(4) None by (auto simp: awaiting_def)
next
  case (Some e')
  have "drop 1 b \<noteq> []" using assms(2) by simp
  then have "length (drop 1 b) = 1" and n1: "n = 1"
    using infer_response_missing [of "drop 1 b" fc n e'] assms(1,3) Some by (auto simp: inferLength_def)
  then have miss: "length b = 2" "n = 1" using assms(2) by simp_all
  show ?thesis
  proof (cases xs)
    case Nil
    then show ?thesis using miss by (simp add: awaiting_short)
  next
    case (Cons c d)
    obtain fc' n' where "InferResponsePacketLength (drop 1 b @ c # d) = (fc', n', None)" "2 \<le> unat n'"
      using infer_response_missing [of "drop 1 b" fc n e' c d] \<open>drop 1 b \<noteq> []\<close> assms(1,3) Some by (auto simp: inferLength_def)
    then show ?thesis using assms(4) miss Cons by (auto simp: awaiting_def inferLength_def)
  qed
qed

lemma quiet_read:
  assumes W: "reader_contract W" "quiet_reader W" and ok: "rx_ok cs" and pre: "preproc cs = None" and "0 < upTo"
    and r: "read W cs w upTo = Ret (cs', w', n, Some e)"
  shows "n = 0"
proof (cases "upTo \<le> 512 - dataEnd cs")
  case True
  have "port cs \<noteq> None" using r ok True \<open>0 < upTo\<close>
    by (cases "port cs") (auto simp: read_def rx_ok_def sub_Ret)
  then obtain h where h: "port cs = Some h" by blast
  from r [unfolded read_eq [OF W(1) ok pre h \<open>0 < upTo\<close> True]] W(2) show ?thesis
    unfolding quiet_reader_def by (auto simp: andThen_eq_Ret case_prod_beta) blast
next
  case False
  then show ?thesis using r ok by (simp add: read_def rx_ok_def)
qed

lemma rxPacket_response:
  assumes W: "reader_contract W" "strict \<longrightarrow> quiet_reader W" and ok: "rx_ok cs" and pre: "preproc cs = None" and port: "port cs \<noteq> None"
    and b: "2 \<le> buffered cs" and await: "awaiting strict (pending cs)"
  shows "(rxPacket W True cs w = Panic m \<longrightarrow> \<not> strict \<and> m = ''read 0'') \<and>
    (\<forall>cs' w' pdu a err. rxPacket W True cs w = Ret (cs', w', pdu, a, err) \<longrightarrow> awaiting strict (pending cs'))"
proof -
  obtain fc n e where inf: "inferLength True (drop 1 (pending cs)) = (fc, n, e)"
    by (cases "inferLength True (drop 1 (pending cs))") auto
  have len: "buffered cs = int (length (pending cs))"
    using length_pending [OF ok] b by simp
  note eq = rxPacket_eq [OF ok _ inf, of W w]
  let ?miss = "int (unat n) + 3 - buffered cs"
  consider (bad) "e = Some ErrBadFunctionCode" | (full) "e \<noteq> Some ErrBadFunctionCode" "length (pending cs) = unat n + 3" "\<not> strict"
    | (part) "e \<noteq> Some ErrBadFunctionCode" "length (pending cs) < unat n + 3"
    using await inf b len by (auto simp: awaiting_def)
  then show ?thesis
  proof cases
    case bad
    then show ?thesis using await b by (auto simp: eq pending_def buffered_def)
  next
    case full
    then have "?miss = 0" by (simp add: len)
    moreover have "read W cs w 0 = Panic ''read 0''" using ok by (simp add: read_def rx_ok_def)
    ultimately show ?thesis using full b eq by simp
  next
    case part
    then have "int (length (pending cs)) < int (unat n) + 3" by linarith
    then have miss: "0 < ?miss" by (simp only: len)
    note np = read_no_panic [OF W(1) ok pre miss port]
    show ?thesis
    proof (cases "read W cs w ?miss")
      case (Ret r)
      obtain cs1 w1 k rxerr where r: "r = (cs1, w1, k, rxerr)" by (cases r)
      note rd = Ret [unfolded r]
      note R = read_Ret [OF W(1) ok pre miss rd]
      show ?thesis
      proof (cases "rxerr \<noteq> None \<or> e \<noteq> None \<or> k < ?miss")
        case True
        obtain xs where xs: "pending cs1 = pending cs @ xs" "int (length xs) = k" and k: "k \<le> ?miss" using R by blast
        have "strict \<Longrightarrow> rxerr \<noteq> None \<Longrightarrow> k = 0" using quiet_read [OF W(1) _ ok pre miss] W(2) rd by (cases rxerr) auto
        then have "length (pending cs) + length xs < unat n + 3 \<or>
            (e \<noteq> None \<or> \<not> strict) \<and> length (pending cs) + length xs \<le> unat n + 3"
          using True xs(2) k miss unfolding len by linarith
        from awaiting_response_more [OF inf _ part(1) this] have "awaiting strict (pending cs1)"
          using xs(1) len b by simp
        moreover have "\<exists>err. rxPacket W True cs w = Ret (cs1, w1, None, 0, err)"
          using True part(1) b eq rd by auto
        ultimately show ?thesis by auto
      next
        case False
        then have "rxPacket W True cs w = checkPacket cs1 w1 n" using part(1) b eq rd by simp
        moreover have "buffered cs1 = int (unat n) + 3" using R False by (simp add: buffered_def)
        note checkPacket_eq [OF _ this, of w1]
        ultimately show ?thesis using R by (auto simp: pending_def buffered_def awaiting_short)
      qed
    qed (use np [of w m] part(1) b eq in auto)
  qed
qed

lemma deferred_panic:
  "(\<And>cs' w' r. x = Ret (cs', w', r) \<Longrightarrow> rx_ok cs') \<Longrightarrow> x \<noteq> Panic m \<Longrightarrow>
    andThen x (\<lambda>(cs, w, r). andThen (rxBytes cs) (\<lambda>_. Ret (cs, w, r))) \<noteq> Panic m"
  by (cases x) auto

text \<open>
  The client's receive path: on an open connection without preprocessor whose buffer holds at most the
  announced packet, \<open>TryRx\<close> for responses can only panic in \<open>read\<close>, called with nothing to read, and every
  return leaves such a buffer.  When the port reports an error only if it has read nothing, and the
  buffer holds less than the packet, there is no panic, and the next call is safe again.
\<close>

lemma TryRx_response_safe:
  assumes "reader_contract W" and "strict \<longrightarrow> quiet_reader W" and "rx_ok cs" and "preproc cs = None" and "port cs \<noteq> None"
    and "awaiting strict (pending cs)"
  shows "(TryRx W True cs w = Panic m \<longrightarrow> \<not> strict \<and> m = ''read 0'') \<and>
    (\<forall>cs' w' pdu a err. TryRx W True cs w = Ret (cs', w', pdu, a, err) \<longrightarrow>
      rx_ok cs' \<and> preproc cs' = None \<and> port cs' \<noteq> None \<and> awaiting strict (pending cs'))"
proof -
  obtain cs0 where cs0: "(if dataEnd cs > 256 \<or> buffered cs = 0 then resetRxBuf cs else Ret cs) = Ret cs0"
      "rx_ok cs0" "same_conn cs cs0" "pending cs0 = pending cs \<or> pending cs0 = []"
    using wrap_ok [OF assms(3)] by (auto split: if_splits)
  have conn0: "preproc cs0 = None" "port cs0 \<noteq> None" using cs0(3) assms(4,5) by (simp_all add: same_conn_def)
  have await0: "awaiting strict (pending cs0)" using cs0(4) assms(6) awaiting_short [of "[]"] by auto
  define x where "x = (if buffered cs0 < 2 then
      andThen (read W cs0 w (2 - buffered cs0)) (\<lambda>(cs', w, n, err).
        if buffered cs0 + n < 2 then
          if err \<noteq> None then Ret (cs', w, None, 0, err) else Ret (cs', w, None, 0, Some ErrMissingPacketData)
        else rxPacket W True cs' w)
      else rxPacket W True cs0 w)"
  have tryrx: "TryRx W True cs w = (if murx cs then Blocks
      else andThen x (\<lambda>(cs, w, r). andThen (rxBytes cs) (\<lambda>_. Ret (cs, w, r))))"
    by (simp add: TryRx_def cs0(1) x_def)
  have x: "(x = Panic m \<longrightarrow> \<not> strict \<and> m = ''read 0'') \<and> (\<forall>cs' w' pdu a err. x = Ret (cs', w', pdu, a, err) \<longrightarrow> rx_ok cs' \<and> awaiting strict (pending cs'))"
  proof (cases "buffered cs0 < 2")
    case True
    have step: "rx_ok cs1 \<and> preproc cs1 = None \<and> port cs1 \<noteq> None \<and> buffered cs1 = buffered cs0 + k \<and> length (pending cs1) \<le> 2"
      if rd: "read W cs0 w (2 - buffered cs0) = Ret (cs1, w1, k, e)" for cs1 w1 k e
    proof -
      have "0 < 2 - buffered cs0" using True by simp
      note R = read_Ret [OF assms(1) cs0(2) conn0(1) this rd]
      then show ?thesis using conn0 length_pending [of cs1] by (auto simp: same_conn_def buffered_def)
    qed
    have "read W cs0 w (2 - buffered cs0) \<noteq> Panic m"
      using read_no_panic [OF assms(1) cs0(2) conn0(1) _ conn0(2)] True by simp
    then show ?thesis
    proof (cases "read W cs0 w (2 - buffered cs0)")
      case (Ret r)
      obtain cs1 w1 k e where r: "r = (cs1, w1, k, e)" by (cases r)
      note S = step [OF Ret [unfolded r]]
      have "(rxPacket W True cs1 w1 = Panic m \<longrightarrow> \<not> strict \<and> m = ''read 0'') \<and> (\<forall>cs' w' pdu a err. rxPacket W True cs1 w1 = Ret (cs', w', pdu, a, err) \<longrightarrow>
          rx_ok cs' \<and> awaiting strict (pending cs'))" if "2 \<le> buffered cs0 + k"
        using rxPacket_response [OF assms(1,2), of cs1 w1 m] rxPacket_Ret [OF assms(1), of cs1 True w1] S that
          awaiting_short [of "pending cs1" strict] by (auto simp: rx_result_def)
      then show ?thesis using True Ret r S awaiting_short [of "pending cs1" strict] by (auto simp: x_def)
    qed (use True in \<open>simp_all add: x_def\<close>)
  next
    case False
    then show ?thesis
      using rxPacket_response [OF assms(1,2) cs0(2) conn0 _ await0] rxPacket_Ret [OF assms(1) cs0(2) conn0(1)]
      by (auto simp: x_def rx_result_def)
  qed
  have "TryRx W True cs w = Panic m \<longrightarrow> \<not> strict \<and> m = ''read 0''"
    using deferred_panic [of x m] x tryrx by (cases "x = Panic m") auto
  moreover have "rx_ok cs' \<and> preproc cs' = None \<and> port cs' \<noteq> None \<and> awaiting strict (pending cs')"
    if r: "TryRx W True cs w = Ret (cs', w', pdu, a, err)" for cs' w' pdu a err
    using TryRx_Ret [OF assms(1,3,4) r] r x assms(4,5)
    by (auto simp: tryrx same_conn_def rx_result_def andThen_eq_Ret split: if_splits)
  ultimately show ?thesis by blast
qed

text \<open>
  \<open>io.Reader\<close> allows bytes and an error in one call.  When the bytes that complete a response come with an
  error, \<open>TryRx\<close> reports the error and leaves the whole packet in the buffer, and the next call, which finds
  nothing missing, panics.
\<close>

lemma TryRx_full_panics:
  assumes "rx_ok cs" and "\<not> murx cs" and "2 \<le> buffered cs" and "inferLength True (drop 1 (pending cs)) = (fc, n, None)"
    and "buffered cs = int (unat n) + 3" and "unat n + 3 < 256"
  shows "TryRx W True cs w = Panic ''read 0''"
proof -
  have small: "\<not> 256 \<le> buffered cs" using assms(5,6) by linarith
  obtain cs0 where cs0: "(if dataEnd cs > 256 \<or> buffered cs = 0 then resetRxBuf cs else Ret cs) = Ret cs0"
      "rx_ok cs0" "pending cs0 = pending cs"
    using wrap_ok [OF assms(1)] small by auto
  have "nat (buffered cs0) = nat (buffered cs)"
    using length_pending [OF assms(1)] length_pending [OF cs0(2)] cs0(3) by simp
  then have b: "buffered cs0 = buffered cs" using assms(3) by linarith
  have "read W cs0 w 0 = Panic ''read 0''" using cs0(2) by (simp add: read_def rx_ok_def)
  then have "rxPacket W True cs0 w = Panic ''read 0''"
    using rxPacket_eq [OF cs0(2) _ assms(4) [folded cs0(3)], of W w] assms(3,5) b by simp
  then show ?thesis using assms(2,3) b unfolding TryRx_def cs0(1) by simp
qed

lemma TryRx_error_then_panic:
  fixes cs :: "('s, 'p, 'w) connState"
  assumes W: "reader_contract W" and ok: "rx_ok cs" and pre: "preproc cs = None" and port: "port cs = Some h" and "\<not> murx cs"
    and "dataEnd cs \<le> 256" and b: "2 \<le> buffered cs" and inf: "inferLength True (drop 1 (pending cs)) = (fc, n, None)"
    and miss: "k = int (unat n) + 3 - buffered cs" "0 < k" and "unat n + 3 < 256"
    and rd: "portRead W h w (take (nat k) (drop (nat (dataEnd cs)) (rxbuf cs))) = Ret (w', p, k, Some e)"
  shows "\<exists>cs' w''. TryRx W True cs w = Ret (cs', w'', None, 0, Some e) \<and> (\<forall>v. TryRx W True cs' v = Panic ''read 0'')"
proof -
  have fits: "k \<le> 512 - dataEnd cs" using miss(1) assms(6,11) b by linarith
  obtain w'' now where now: "timeNow W w' = (w'', now)" by (cases "timeNow W w'")
  let ?cs = "received cs p k now"
  have r: "read W cs w k = Ret (?cs, w'', k, Some e)"
    using read_eq [OF W ok pre port miss(2) fits, of w] rd now miss(2) by simp
  note R = read_Ret [OF W ok pre miss(2) r]
  then obtain xs where xs: "pending ?cs = pending cs @ xs" by blast
  have "rxPacket W True cs w = Ret (?cs, w'', None, 0, Some e)"
    using rxPacket_eq [OF ok _ inf, of W w] b r miss(1) by simp
  then have "TryRx W True cs w = Ret (?cs, w'', None, 0, Some e)"
    using assms(5,6) b R by (simp add: TryRx_def)
  moreover have "TryRx W True ?cs v = Panic ''read 0''" for v
  proof (rule TryRx_full_panics)
    have "drop 1 (pending ?cs) = drop 1 (pending cs) @ xs" using xs length_pending [OF ok] b by simp
    then show "inferLength True (drop 1 (pending ?cs)) = (fc, n, None)"
      using infer_response_more [of "drop 1 (pending cs)" fc n xs] inf by (simp add: inferLength_def)
    show "\<not> murx ?cs" using R assms(5) by (simp add: same_conn_def)
    show "buffered ?cs = int (unat n) + 3" "2 \<le> buffered ?cs" using R miss(1,2) b by (simp_all add: buffered_def)
  qed (use R assms(11) in simp_all)
  ultimately show ?thesis by blast
qed

section \<open>Where the server's side fails\<close>

text \<open>
  C33. The server's receive path can be crashed by timing and by unimplemented function codes: with five bytes
  of a multiple write in the buffer, or three bytes of a request whose function code is not implemented, the
  next \<open>TryRx\<close> computes that nothing is missing and panics, whatever the port would deliver.
\<close>

theorem tryrx_request_panics:
  assumes "rx_ok cs" and "\<not> murx cs" and "dataEnd cs \<le> 256"
    and "pending cs = [a, fc, x] \<and> fc \<in> {FCDiagnostic, FCMaskWriteRegister, FCReadDeviceIdentification, FCReadFIFOQueue,
        FCReadFileRecord, FCReadWriteMultipleRegisters, FCWriteFileRecord} \<or>
      pending cs = [a, fc, x, y, z] \<and> fc \<in> {FCWriteMultipleCoils, FCWriteMultipleRegisters}"
  shows "TryRx W False cs w = Panic ''read 0''"
proof -
  have b: "buffered cs = int (length (pending cs))"
    using length_pending [OF assms(1)] assms(1) by (simp add: rx_ok_def buffered_def)
  obtain n e where inf: "inferLength False (drop 1 (pending cs)) = (n, e)" "snd e \<noteq> Some ErrBadFunctionCode"
      "int (unat (fst e)) + 3 = buffered cs"
    using assms(4) b by (auto simp: inferLength_def InferRequestPacketLength_def Let_def)
  have room: "dataEnd cs \<le> int (length (rxbuf cs))" using assms(1) by (simp add: rx_ok_def)
  have b2: "2 \<le> buffered cs" using assms(4) b by auto
  then show ?thesis
    using rxPacket_eq [OF assms(1), of False n "fst e" "snd e" W w] inf room
      TryRx_continue [OF assms(1,2) b2 assms(3), of W False w]
    by (simp add: read_def)
qed

theorem tryrx_request_panics_witness:
  "TryRx lineWorld False (demoConn\<lparr>rxbuf := [17, 16, 0, 0, 0] @ replicate 507 0, dataEnd := 5\<rparr>)
     \<lparr>inbox = [1, 2, 0, 0], outbox = [], clock = 0\<rparr> = Panic ''read 0''"
  using tryrx_request_panics [of "demoConn\<lparr>rxbuf := [17, 16, 0, 0, 0] @ replicate 507 0, dataEnd := 5\<rparr>" 17 16 0 0 0 lineWorld
      "\<lparr>inbox = [1, 2, 0, 0], outbox = [], clock = 0\<rparr>"]
  by (simp add: demoConn_def zeroConn_def rx_ok_def pending_def buffered_def)

text \<open>
  An unknown function code ends the connection for good: \<open>TryRx\<close> reports it, records it as the reason of
  the closed connection and keeps the offending bytes, so every later call reports it again without reading.
\<close>

theorem tryrx_desync_is_final:
  fixes cs :: "('s, 'p, 'w) connState"
  assumes "rx_ok cs" and "\<not> murx cs" and "dataEnd cs \<le> 256" and "2 \<le> buffered cs"
    and "snd (snd (inferLength isResponse (drop 1 (pending cs)))) = Some ErrBadFunctionCode"
  shows "TryRx W isResponse cs w = Ret (cs\<lparr>closeErr := Some ErrBadFunctionCode\<rparr>, w, None, 0, Some ErrBadFunctionCode) \<and>
    TryRx W isResponse (cs\<lparr>closeErr := Some ErrBadFunctionCode\<rparr>) w' =
      Ret (cs\<lparr>closeErr := Some ErrBadFunctionCode\<rparr>, w', None, 0, Some ErrBadFunctionCode) \<and>
    Err (cs\<lparr>closeErr := Some ErrBadFunctionCode\<rparr>) = (if mu cs then Blocks else Ret (Some ErrBadFunctionCode))"
proof -
  have one: "TryRx W isResponse c v = Ret (c\<lparr>closeErr := Some ErrBadFunctionCode\<rparr>, v, None, 0, Some ErrBadFunctionCode)"
    if "rx_ok c" "\<not> murx c" "dataEnd c \<le> 256" "2 \<le> buffered c"
      "snd (snd (inferLength isResponse (drop 1 (pending c)))) = Some ErrBadFunctionCode" for c :: "('s, 'p, 'w) connState" and v
  proof -
    obtain n e where inf: "inferLength isResponse (drop 1 (pending c)) = (n, e)" by (cases "inferLength isResponse (drop 1 (pending c))")
    have "rx_ok (c\<lparr>closeErr := Some ErrBadFunctionCode\<rparr>)" using that(1) by (simp add: rx_ok_def)
    then show ?thesis
      using rxPacket_eq [OF that(1), of isResponse n "fst e" "snd e" W v] inf that TryRx_continue [OF that(1,2,4,3), of W isResponse v]
      by simp
  qed
  let ?cs = "cs\<lparr>closeErr := Some ErrBadFunctionCode\<rparr>"
  have "rx_ok ?cs" "\<not> murx ?cs" "dataEnd ?cs \<le> 256" "2 \<le> buffered ?cs" "pending ?cs = pending cs"
    using assms by (simp_all add: rx_ok_def buffered_def pending_def)
  then show ?thesis using one [OF assms] one [of ?cs w'] assms(5) by (simp add: Err_def)
qed

theorem tryrx_desync_is_final_witness:
  "TryRx lineWorld False (demoConn\<lparr>rxbuf := [17, 0x63] @ replicate 510 0, dataEnd := 2\<rparr>)
     \<lparr>inbox = rtu_frame 17 [3, 0, 0, 0, 1], outbox = [], clock = 0\<rparr> =
   Ret (demoConn\<lparr>rxbuf := [17, 0x63] @ replicate 510 0, dataEnd := 2, closeErr := Some ErrBadFunctionCode\<rparr>,
     \<lparr>inbox = rtu_frame 17 [3, 0, 0, 0, 1], outbox = [], clock = 0\<rparr>, None, 0, Some ErrBadFunctionCode)"
  using tryrx_desync_is_final [of "demoConn\<lparr>rxbuf := [17, 0x63] @ replicate 510 0, dataEnd := 2\<rparr>" False lineWorld
      "\<lparr>inbox = rtu_frame 17 [3, 0, 0, 0, 1], outbox = [], clock = 0\<rparr>"]
  by (simp add: demoConn_def zeroConn_def rx_ok_def pending_def buffered_def inferLength_def InferRequestPacketLength_def Let_def)

end
