(* ===== verification/Rtu_Client.thy ===== *)
theory Rtu_Client
  imports Rtu_Receive
begin

text \<open>
  \<open>src/modbusrtu/client.go\<close>: the RTU client.  The receive loop of \<open>transaction\<close> takes fuel, and \<open>None\<close> is
  a call that has not returned.  Times and durations are nanoseconds; the zero deadline of a client without
  timeout is \<open>None\<close>.  The slice of registers a read method fills is returned with its new contents.
\<close>

section \<open>The client\<close>

record ('s, 'p, 'w) Client =
  cl_state :: "('s, 'p, 'w) connState"
  muTx :: bool
  cl_txbuf :: "byte list"
  timeout :: int

record 'w ClientConfig =
  RxTimeout :: int
  Preprocessor :: "'w preprocessor option"

definition NewClient :: "'w ClientConfig \<Rightarrow> ('s, 'p, 'w) Client" where
  "NewClient cfg = \<lparr>cl_state = zeroConn\<lparr>closeErr := Some ErrYetToConnect, preproc := Preprocessor cfg\<rparr>,
     muTx = False, cl_txbuf = replicate 256 0, timeout = RxTimeout cfg\<rparr>"

definition SetTransport :: "('s, 'p, 'w) Client \<Rightarrow> 'p option \<Rightarrow> ('s, 'p, 'w) Client outcome" where
  "SetTransport c port' =
    (if port' = None then Panic ''nil port''
     else if muTx c then Blocks
     else Ret (c\<lparr>cl_state := (cl_state c)\<lparr>port := port', closeErr := None\<rparr>\<rparr>))"

text \<open>
  The receive loop: the state of the connection and of the world, the error count and the values of \<open>pdu\<close>,
  \<open>addr\<close> and \<open>err\<close> so far.  \<open>errors.Is(ErrMissingPacketData, err)\<close> holds exactly when \<open>err\<close> is that error;
  it does not hold for a nil error.
\<close>

definition pastDeadline :: "('p, 'w) World \<Rightarrow> int option \<Rightarrow> 'w \<Rightarrow> 'w \<times> bool" where
  "pastDeadline W deadline w =
    (case deadline of None \<Rightarrow> (w, False)
     | Some d \<Rightarrow> (case timeNow W w of (w, now) \<Rightarrow> (w, \<not> d - now > 0)))"

definition accepts :: "('s, 'p, 'w) connState \<Rightarrow> FunctionCode \<Rightarrow> uint8 \<Rightarrow> (nat \<times> nat) option \<Rightarrow> uint8 \<Rightarrow> bool" where
  "accepts cs rxFCFilter addrFilter pdu addr \<longleftrightarrow> length (pduBytes cs pdu) > 1 \<and>
     (addrFilter = 0 \<or> addrFilter = addr) \<and> (rxFCFilter = 0 \<or> rxFCFilter = pduBytes cs pdu ! 0)"

fun rxLoop :: "('p, 'w) World \<Rightarrow> int \<Rightarrow> int option \<Rightarrow> FunctionCode \<Rightarrow> uint8 \<Rightarrow> nat \<Rightarrow> nat \<Rightarrow> ('s, 'p, 'w) rxresult \<Rightarrow>
    ('s, 'p, 'w) rxresult outcome option" where
  "rxLoop W tmo deadline rxFCFilter addrFilter 0 errcount r = None"
| "rxLoop W tmo deadline rxFCFilter addrFilter (Suc fuel) errcount (cs, w, pdu, addr, err) =
    (case pastDeadline W deadline w of (w, past) \<Rightarrow>
     if past \<or> \<not> errcount < 5 then Some (Ret (cs, w, pdu, addr, err))
     else (case TryRx W True cs w of
       Panic m \<Rightarrow> Some (Panic m)
     | Blocks \<Rightarrow> Some Blocks
     | Ret (cs, w, pdu, addr, err) \<Rightarrow>
         if accepts cs rxFCFilter addrFilter pdu addr then Some (Ret (cs, w, pdu, addr, err))
         else if err \<noteq> Some ErrMissingPacketData then
           rxLoop W tmo deadline rxFCFilter addrFilter fuel (errcount + 1)
             (cs, timeSleep W w (sgn tmo * (\<bar>tmo\<bar> div 16)), None, addr, err)
         else rxLoop W tmo deadline rxFCFilter addrFilter fuel errcount (cs, w, None, addr, err)))"

text \<open>The \<open>switch\<close> after the loop.\<close>

definition finishRx :: "('s, 'p, 'w) Client \<Rightarrow> ('s, 'p, 'w) rxresult \<Rightarrow>
    ('s, 'p, 'w) Client \<times> 'w \<times> (nat \<times> nat) option \<times> uint8 \<times> goerror option" where
  "finishRx c r =
    (case r of (cs, w, pdu, addr, err) \<Rightarrow>
       let c = c\<lparr>cl_state := cs\<rparr> in
       if err \<noteq> None then (c, w, pdu, 0, err)
       else if pdu = None then (c, w, None, 0, Some ErrTimeout)
       else (c, w, pdu, addr, None))"

text \<open>
  \<open>transaction\<close> on the packet \<open>c.txbuf[:n]\<close>, whose last two bytes are the place of the CRC.  The short-circuit
  \<open>deadline.IsZero() || time.Until(deadline) > 0\<close> reads the clock only with a deadline, before it looks at the
  error count.
\<close>

definition transaction :: "('p, 'w) World \<Rightarrow> nat \<Rightarrow> ('s, 'p, 'w) Client \<Rightarrow> 'w \<Rightarrow> FunctionCode \<Rightarrow> uint8 \<Rightarrow> nat \<Rightarrow>
    (('s, 'p, 'w) Client \<times> 'w \<times> (nat \<times> nat) option \<times> uint8 \<times> goerror option) outcome option" where
  "transaction W fuel c w rxFCFilter addrFilter n =
    (case andThen (sub (cl_txbuf c) 0 (int n - 2)) (\<lambda>p.
          andThen (PutUint16LE (take n (cl_txbuf c)) (n - 2) (generateCRC p)) (\<lambda>packet.
          let c = c\<lparr>cl_txbuf := overwrite 0 packet (cl_txbuf c)\<rparr> in
          andThen (writePort W (cl_state c) w packet) (\<lambda>(w, err). Ret (c, w, err)))) of
       Panic m \<Rightarrow> Some (Panic m)
     | Blocks \<Rightarrow> Some Blocks
     | Ret (c, w, err) \<Rightarrow>
       if err \<noteq> None then Some (Ret (c, w, None, 0, err))
       else case (if timeout c > 0 then case timeNow W w of (w, now) \<Rightarrow> (w, Some (now + timeout c)) else (w, None)) of
         (w, deadline) \<Rightarrow>
         map_option (\<lambda>r. andThen r (\<lambda>r. Ret (finishRx c r)))
           (rxLoop W (timeout c) deadline rxFCFilter addrFilter fuel 0 (cl_state c, w, None, 0, None)))"

text \<open>The loop that decodes the registers of the response, from index \<open>i\<close> on.\<close>

fun getRegisters :: "byte list \<Rightarrow> nat list \<Rightarrow> uint16 list \<Rightarrow> uint16 list outcome" where
  "getRegisters d [] regs = Ret regs"
| "getRegisters d (i # is) regs = andThen (Uint16 d (i * 2)) (\<lambda>v. getRegisters d is (regs[i := v]))"

text \<open>The request of a read method, marshalled into \<open>c.txbuf[1:]\<close>.\<close>

definition readRequest :: "FunctionCode \<Rightarrow> byte list \<Rightarrow> uint16 \<Rightarrow> uint16 \<Rightarrow> txresult" where
  "readRequest fc dst regAddr n =
    (if fc = FCReadHoldingRegisters then RequestReadHoldingRegisters dst regAddr n
     else if fc = FCReadInputRegisters then RequestReadInputRegisters dst regAddr n
     else Ret (dst, 0, None))"

type_synonym ('s, 'p, 'w) clientresult = "(('s, 'p, 'w) Client \<times> 'w \<times> uint16 list \<times> goerror option) outcome option"

definition readRegisters :: "('p, 'w) World \<Rightarrow> nat \<Rightarrow> ('s, 'p, 'w) Client \<Rightarrow> 'w \<Rightarrow> FunctionCode \<Rightarrow> uint8 \<Rightarrow> uint16 \<Rightarrow>
    uint16 list \<Rightarrow> ('s, 'p, 'w) clientresult" where
  "readRegisters W fuel c w fc devAddr regAddr regs =
    (if muTx c then Some Blocks
     else case andThen (store (cl_txbuf c) 0 devAddr) (\<lambda>txbuf.
            andThen (readRequest fc (drop 1 txbuf) regAddr (word_of_nat (length regs))) (\<lambda>(dst, n, err).
              Ret (c\<lparr>cl_txbuf := take 1 txbuf @ dst\<rparr>, n, err))) of
       Panic m \<Rightarrow> Some (Panic m)
     | Blocks \<Rightarrow> Some Blocks
     | Ret (c, n, err) \<Rightarrow>
       if err \<noteq> None then Some (Ret (c, w, regs, err))
       else map_option (\<lambda>r. andThen r (\<lambda>(c, w, pdu, addr, err).
           if err \<noteq> None then Ret (c, w, regs, err)
           else case ReceiveDataResponse (pduBytes (cl_state c) pdu) of (d, err) \<Rightarrow>
             if err \<noteq> None then Ret (c, w, regs, err)
             else if length d \<noteq> length regs * 2 then Ret (c, w, regs, Some ErrWrongNumberOfRegisters)
             else andThen (getRegisters d [0..<length regs] regs) (\<lambda>regs. Ret (c, w, regs, None))))
         (transaction W fuel c w fc devAddr (n + 3)))"

definition ReadHoldingRegisters :: "('p, 'w) World \<Rightarrow> nat \<Rightarrow> ('s, 'p, 'w) Client \<Rightarrow> 'w \<Rightarrow> uint8 \<Rightarrow> uint16 \<Rightarrow>
    uint16 list \<Rightarrow> ('s, 'p, 'w) clientresult" where
  "ReadHoldingRegisters W fuel c w devAddr regAddr regs = readRegisters W fuel c w FCReadHoldingRegisters devAddr regAddr regs"

definition ReadInputRegisters :: "('p, 'w) World \<Rightarrow> nat \<Rightarrow> ('s, 'p, 'w) Client \<Rightarrow> 'w \<Rightarrow> uint8 \<Rightarrow> uint16 \<Rightarrow>
    uint16 list \<Rightarrow> ('s, 'p, 'w) clientresult" where
  "ReadInputRegisters W fuel c w devAddr regAddr regs = readRegisters W fuel c w FCReadInputRegisters devAddr regAddr regs"

definition WriteHoldingRegisters :: "('p, 'w) World \<Rightarrow> nat \<Rightarrow> ('s, 'p, 'w) Client \<Rightarrow> 'w \<Rightarrow> uint8 \<Rightarrow> uint16 \<Rightarrow>
    uint16 list \<Rightarrow> (('s, 'p, 'w) Client \<times> 'w \<times> goerror option) outcome option" where
  "WriteHoldingRegisters W fuel c w devAddr regAddr regs =
    (if muTx c then Some Blocks
     else case andThen (store (cl_txbuf c) 0 devAddr) (\<lambda>txbuf.
            andThen (RequestWriteMultipleRegisters (drop 1 txbuf) regAddr regs) (\<lambda>(dst, n, err).
              Ret (c\<lparr>cl_txbuf := take 1 txbuf @ dst\<rparr>, n, err))) of
       Panic m \<Rightarrow> Some (Panic m)
     | Blocks \<Rightarrow> Some Blocks
     | Ret (c, n, err) \<Rightarrow>
       if err \<noteq> None then Some (Ret (c, w, err))
       else map_option (\<lambda>r. andThen r (\<lambda>(c, w, pdu, addr, err). Ret (c, w, err)))
         (transaction W fuel c w FCWriteMultipleRegisters devAddr (n + 3)))"

section \<open>Receiving a response\<close>

text \<open>
  The response PDUs of the protocol: data of known length, the five bytes that echo a write, and the two bytes
  of an exception.
\<close>

definition response_pdu :: "byte list \<Rightarrow> bool" where
  "response_pdu pdu \<longleftrightarrow>
     (\<exists>fc d. (fc = FCReadCoils \<or> fc = FCReadDiscreteInputs \<or> fc = FCReadHoldingRegisters \<or> fc = FCReadInputRegisters) \<and>
       length d < 256 \<and> pdu = fc # word_of_nat (length d) # d) \<or>
     (\<exists>fc d. (fc = FCWriteSingleCoil \<or> fc = FCWriteSingleRegister \<or> fc = FCWriteMultipleCoils \<or>
       fc = FCWriteMultipleRegisters) \<and> length d = 4 \<and> pdu = fc # d) \<or>
     (\<exists>fc e. fc AND 0x80 \<noteq> 0 \<and> pdu = [fc, e])"

lemma response_pdu_calls:
  assumes "response_pdu pdu"
  shows "(\<exists>fc. inferLength True [hd pdu] = (fc, word_of_nat (length pdu), None)) \<or>
    1 < length pdu \<and> inferLength True [hd pdu] = (0, 1, Some ErrMissingPacketData) \<and>
      (\<forall>ck. \<exists>fc. inferLength True (take 3 (pdu @ ck)) = (fc, word_of_nat (length pdu), None))"
proof -
  from assms consider
      (data) fc and d :: "byte list" where "fc = FCReadCoils \<or> fc = FCReadDiscreteInputs \<or> fc = FCReadHoldingRegisters \<or> fc = FCReadInputRegisters"
        "length d < 256" "pdu = fc # word_of_nat (length d) # d"
    | (echo) fc and d :: "byte list" where "fc = FCWriteSingleCoil \<or> fc = FCWriteSingleRegister \<or> fc = FCWriteMultipleCoils \<or>
        fc = FCWriteMultipleRegisters" "length d = 4" "pdu = fc # d"
    | (exc) fc e where "fc AND 0x80 \<noteq> 0" "pdu = [fc, e]"
    unfolding response_pdu_def by blast
  then show ?thesis
  proof cases
    case data
    have "inferLength True [fc] = (0, 1, Some ErrMissingPacketData)"
      using data(1) by (auto simp: inferLength_def InferResponsePacketLength_def)
    moreover have "inferLength True (take 3 (pdu @ ck)) = (fc, word_of_nat (length pdu), None)" for ck
      using InferResponse_data [OF data(1,2), of "take 1 (d @ ck)"] data(3) by (simp add: inferLength_def)
    ultimately show ?thesis using data(3) by auto
  next
    case echo
    then show ?thesis using InferResponse_simple [OF echo(1), of "[]"] by (simp add: inferLength_def)
  next
    case exc
    then show ?thesis by (simp add: inferLength_def InferResponsePacketLength_def)
  qed
qed

lemma response_pdu_length: "response_pdu pdu \<Longrightarrow> 2 \<le> length pdu \<and> length pdu \<le> 257"
  by (auto simp: response_pdu_def)

text \<open>A client without an exchange under way, on the port \<open>h\<close>, that waits for a response without limit.\<close>

definition ready :: "('s, 'p, 'w) Client \<Rightarrow> 'p \<Rightarrow> bool" where
  "ready c h \<longleftrightarrow> rx_ok (cl_state c) \<and> preproc (cl_state c) = None \<and> \<not> murx (cl_state c) \<and> port (cl_state c) = Some h \<and>
     dataStart (cl_state c) = dataEnd (cl_state c) \<and> \<not> muTx c \<and> length (cl_txbuf c) = 256 \<and> timeout c \<le> 0"

lemma ready_SetTransport:
  assumes "RxTimeout cfg \<le> 0" and "Preprocessor cfg = None"
  shows "\<exists>c. SetTransport (NewClient cfg) (Some h) = Ret c \<and> ready c h"
  using assms by (simp add: SetTransport_def NewClient_def ready_def zeroConn_def rx_ok_def)

text \<open>The frame of a response is received by one call or by two.\<close>

lemma TryRx_response:
  fixes cs :: "('s, 'p, 'w) connState"
  assumes L: "line_reads W h inb obs" and ok: "rx_ok cs" "preproc cs = None" "port cs = Some h" "\<not> murx cs" "dataStart cs = dataEnd cs"
    and inb: "inb w = rtu_frame a pdu @ rest" and pdu: "response_pdu pdu"
  shows "\<exists>cs' w'. (TryRx W True cs w = Ret (cs', w', Some (1, length pdu), a, None) \<or>
      (\<exists>cs1 w1. TryRx W True cs w = Ret (cs1, w1, None, 0, Some ErrMissingPacketData) \<and>
        TryRx W True cs1 w1 = Ret (cs', w', Some (1, length pdu), a, None))) \<and>
    rx_ok cs' \<and> same_conn cs cs' \<and> dataStart cs' = dataEnd cs' \<and> rxSlice cs' 1 (length pdu) = pdu \<and> inb w' = rest \<and> obs w' = obs w"
proof -
  have len: "2 \<le> length pdu" "length pdu \<le> 257" using response_pdu_length [OF pdu] by auto
  then have ne: "pdu \<noteq> []" by auto
  from response_pdu_calls [OF pdu] show ?thesis
  proof (elim disjE exE conjE)
    fix fc assume inf: "inferLength True [hd pdu] = (fc, word_of_nat (length pdu), None)"
    show ?thesis using TryRx_fixed [OF L ok inb ne _ inf] len by fastforce
  next
    assume inf: "inferLength True [hd pdu] = (0, 1, Some ErrMissingPacketData)"
      and inf2: "\<forall>ck. \<exists>fc. inferLength True (take 3 (pdu @ ck)) = (fc, word_of_nat (length pdu), None)"
    define ck where "ck = drop (length pdu + 1) (rtu_frame a pdu)"
    have "unat (1 :: uint16) + 2 = 3" by simp
    with inf2 obtain fc where inf3: "inferLength True (take (unat (1 :: uint16) + 2) (pdu @ ck)) = (fc, word_of_nat (length pdu), None)"
      by metis
    have m: "length pdu \<le> 509" "0 < unat (1 :: uint16)" "unat (1 :: uint16) < length pdu" "unat (1 :: uint16) \<le> 253"
      using len by auto
    show ?thesis using TryRx_two_calls [OF L ok inb ne m inf inf3 ck_def] by blast
  qed
qed

lemma rxLoop_response:
  fixes cs :: "('s, 'p, 'w) connState"
  assumes L: "line_reads W h inb obs" and ok: "rx_ok cs" "preproc cs = None" "port cs = Some h" "\<not> murx cs" "dataStart cs = dataEnd cs"
    and inb: "inb w = rtu_frame a pdu @ rest" and pdu: "response_pdu pdu" and filters: "rxFC = 0 \<or> rxFC = hd pdu" "dev = 0 \<or> dev = a"
    and ec: "ec < 5"
  shows "\<exists>cs' w'. rxLoop W tmo None rxFC dev (Suc (Suc n)) ec (cs, w, r) = Some (Ret (cs', w', Some (1, length pdu), a, None)) \<and>
    rx_ok cs' \<and> same_conn cs cs' \<and> dataStart cs' = dataEnd cs' \<and> rxSlice cs' 1 (length pdu) = pdu \<and> inb w' = rest \<and> obs w' = obs w"
proof -
  obtain cs' w' where t: "TryRx W True cs w = Ret (cs', w', Some (1, length pdu), a, None) \<or>
      (\<exists>cs1 w1. TryRx W True cs w = Ret (cs1, w1, None, 0, Some ErrMissingPacketData) \<and>
        TryRx W True cs1 w1 = Ret (cs', w', Some (1, length pdu), a, None))"
    and r: "rx_ok cs'" "same_conn cs cs'" "dataStart cs' = dataEnd cs'" "rxSlice cs' 1 (length pdu) = pdu" "inb w' = rest" "obs w' = obs w"
    using TryRx_response [OF L ok inb pdu] by blast
  have "2 \<le> length pdu" "pdu \<noteq> []" using response_pdu_length [OF pdu] by auto
  then have "accepts cs' rxFC dev (Some (1, length pdu)) a" "\<not> accepts cs1 rxFC dev None 0" for cs1 :: "('s, 'p, 'w) connState"
    using r(4) filters by (simp_all add: accepts_def pduBytes_def hd_conv_nth)
  then have "rxLoop W tmo None rxFC dev (Suc (Suc n)) ec (cs, w, r) = Some (Ret (cs', w', Some (1, length pdu), a, None))"
    using t ec by (cases r) (auto simp: pastDeadline_def)
  with r show ?thesis by blast
qed

section \<open>Transactions\<close>

text \<open>The packet the client sends: the CRC completes the frame.\<close>

lemma put_crc:
  assumes "n = length req + 3" and "n \<le> length tx" and "take (length req + 1) tx = a # req"
  shows "sub tx 0 (int n - 2) = Ret (a # req)"
    and "PutUint16LE (take n tx) (n - 2) (generateCRC (a # req)) = Ret (rtu_frame a req)"
proof -
  have "int n - 2 = int (length req + 1)" using assms(1) by simp
  then show "sub tx 0 (int n - 2) = Ret (a # req)"
    using sub_nat [of 0 "length req + 1" tx] assms by simp
  have n2: "n - 2 = Suc (length req)" "Suc (Suc (n - 2)) = n" using assms(1) by simp_all
  let ?c = "generateCRC (a # req)"
  have "take (Suc (Suc (n - 2))) ((take n tx)[n - 2 := lo8 ?c, Suc (n - 2) := hi8 ?c]) = take (n - 2) (take n tx) @ [lo8 ?c, hi8 ?c]"
    using assms(1,2) by (intro take_store2) simp
  also have "take (n - 2) (take n tx) = a # req" using assms by (simp add: n2(1))
  finally show "PutUint16LE (take n tx) (n - 2) ?c = Ret (rtu_frame a req)"
    using assms(1,2) by (simp add: PutUint16LE_def n2 rtu_frame_def)
qed

lemma transaction_sends:
  assumes "ready c h" and "n = length req + 3" and "n \<le> 256" and "take (length req + 1) (cl_txbuf c) = a # req"
    and "portWrite W h w (rtu_frame a req) = Ret (w1, k, None)"
  shows "\<exists>c1. (\<forall>fuel. transaction W fuel c w rxFC dev n =
      map_option (\<lambda>r. andThen r (\<lambda>r. Ret (finishRx c1 r))) (rxLoop W (timeout c) None rxFC dev fuel 0 (cl_state c, w1, None, 0, None))) \<and>
    ready c1 h \<and> cl_state c1 = cl_state c"
proof -
  let ?c = "c\<lparr>cl_txbuf := overwrite 0 (rtu_frame a req) (cl_txbuf c)\<rparr>"
  have len: "length (cl_txbuf c) = 256" "port (cl_state c) = Some h" "\<not> 0 < timeout c" using assms(1) by (auto simp: ready_def)
  have "writePort W (cl_state c) w (rtu_frame a req) = Ret (w1, None)"
    using assms(5) len by (simp add: writePort_def)
  then have "transaction W fuel c w rxFC dev n =
      map_option (\<lambda>r. andThen r (\<lambda>r. Ret (finishRx ?c r))) (rxLoop W (timeout c) None rxFC dev fuel 0 (cl_state c, w1, None, 0, None))" for fuel
    using put_crc [OF assms(2) _ assms(4)] assms(3) len by (simp add: transaction_def Let_def)
  moreover have "ready ?c h"
    using assms(1-3) len by (auto simp: ready_def overwrite_def)
  ultimately show ?thesis by (intro exI [of _ ?c]) simp
qed

lemma ready_after_rx:
  assumes "ready c h" and "same_conn (cl_state c) cs" and "rx_ok cs" and "dataStart cs = dataEnd cs"
  shows "ready (c\<lparr>cl_state := cs\<rparr>) h"
  using assms by (auto simp: ready_def same_conn_def)

lemma ready_conn:
  assumes "ready c h"
  shows "rx_ok (cl_state c)" "preproc (cl_state c) = None" "port (cl_state c) = Some h" "\<not> murx (cl_state c)"
    "dataStart (cl_state c) = dataEnd (cl_state c)"
  using assms by (auto simp: ready_def)

lemma transaction_response:
  assumes L: "line_reads W h inb obs" and c: "ready c h"
    and n: "n = length req + 3" "n \<le> 256" "take (length req + 1) (cl_txbuf c) = b # req"
    and wr: "portWrite W h w (rtu_frame b req) = Ret (w1, k, None)"
    and inb: "inb w1 = rtu_frame a pdu @ rest" and pdu: "response_pdu pdu" and filters: "rxFC = 0 \<or> rxFC = hd pdu" "dev = 0 \<or> dev = a"
  shows "\<exists>c' w'. transaction W (Suc (Suc fuel)) c w rxFC dev n = Some (Ret (c', w', Some (1, length pdu), a, None)) \<and>
    ready c' h \<and> rxSlice (cl_state c') 1 (length pdu) = pdu \<and> inb w' = rest \<and> obs w' = obs w1"
proof -
  obtain c1 where c1: "transaction W (Suc (Suc fuel)) c w rxFC dev n =
      map_option (\<lambda>r. andThen r (\<lambda>r. Ret (finishRx c1 r))) (rxLoop W (timeout c) None rxFC dev (Suc (Suc fuel)) 0 (cl_state c, w1, None, 0, None))"
    and ready1: "ready c1 h" "cl_state c1 = cl_state c"
    using transaction_sends [OF c n wr] by blast
  from rxLoop_response [OF L ready_conn [OF c] inb pdu filters zero_less_numeral, of "timeout c" fuel] obtain cs' w' where
    r: "rxLoop W (timeout c) None rxFC dev (Suc (Suc fuel)) 0 (cl_state c, w1, None, 0, None) = Some (Ret (cs', w', Some (1, length pdu), a, None))"
      "rx_ok cs'" "same_conn (cl_state c) cs'" "dataStart cs' = dataEnd cs'" "rxSlice cs' 1 (length pdu) = pdu" "inb w' = rest" "obs w' = obs w1"
    by blast
  have "ready (c1\<lparr>cl_state := cs'\<rparr>) h" using ready_after_rx [OF ready1(1)] ready1(2) r(2-4) by simp
  then show ?thesis using c1 r by (auto simp: finishRx_def Let_def simp del: rxLoop.simps)
qed

lemma getRegisters_all:
  assumes "length d = 2 * length regs"
  shows "getRegisters d [0..<length regs] regs = Ret (data_regs d (length regs))"
proof -
  have "getRegisters d [k..<length regs] (take k (data_regs d (length regs)) @ drop k regs) = Ret (data_regs d (length regs))"
    if "k + n = length regs" for k n
    using that
  proof (induction n arbitrary: k)
    case 0
    then show ?case by simp
  next
    case (Suc n)
    then have k: "k < length regs" by simp
    have "(take k (data_regs d (length regs)) @ drop k regs)[k := data_regs d (length regs) ! k] =
        take (Suc k) (data_regs d (length regs)) @ drop (Suc k) regs"
      using k by (simp add: list_update_append take_Suc_conv_app_nth Cons_nth_drop_Suc [symmetric])
    moreover have "Uint16 d (k * 2) = Ret (data_regs d (length regs) ! k)"
      using k assms by (simp add: Uint16_def data_regs_def mult.commute)
    ultimately show ?case using Suc.IH [of "Suc k"] Suc.prems k by (simp add: upt_conv_Cons)
  qed
  from this [of 0 "length regs"] show ?thesis by simp
qed

text \<open>A ready client, for examples.\<close>

definition demoClient :: "(unit, unit, 'w) Client" where
  "demoClient = \<lparr>cl_state = zeroConn\<lparr>port := Some ()\<rparr>, muTx = False, cl_txbuf = replicate 256 0, timeout = 0\<rparr>"

lemma demoClient_ready: "ready demoClient ()"
  by (simp add: demoClient_def ready_def zeroConn_def rx_ok_def)

end
