(* ===== verification/Rtu_Device.thy ===== *)
theory Rtu_Device
  imports Rtu_Client
begin

text \<open>
  The client against its contract with the device at the other end of the line: the locale
  \<open>rtu_device\<close> states what the client relies on when it talks to a device, and the exchanges of the client
  are proved in it once.  The RTU server is shown to be such a device in the theory that joins them.
\<close>

section \<open>The device contract\<close>

text \<open>
  \<open>st\<close> is the state of the device behind the port, \<open>inv\<close> its invariant and \<open>table fc\<close> the registers that
  the function code reads.  When nothing is on the way to the client, writing the frame of a request leaves
  exactly the frame of the answer to be received.
\<close>

locale rtu_device =
  fixes W :: "('p, 'w) World" and h :: 'p and inb :: "'w \<Rightarrow> byte list" and st :: "'w \<Rightarrow> 'd"
    and inv :: "'d \<Rightarrow> bool" and table :: "FunctionCode \<Rightarrow> 'd \<Rightarrow> int \<Rightarrow> uint16" and dev :: uint8
  assumes reads: "line_reads W h inb st"
    and answers_read: "inv (st w) \<Longrightarrow> inb w = [] \<Longrightarrow> fc = FCReadHoldingRegisters \<or> fc = FCReadInputRegisters \<Longrightarrow>
      0 < unat q \<Longrightarrow> unat a + unat q \<le> 125 \<Longrightarrow>
      \<exists>w' k. portWrite W h w (rtu_frame dev [fc, hi8 a, lo8 a, hi8 q, lo8 q]) = Ret (w', k, None) \<and> inv (st w') \<and>
        (\<forall>fc. table fc (st w') = table fc (st w)) \<and>
        inb w' = rtu_frame dev (fc # word_of_nat (2 * unat q) # be_bytes (map (\<lambda>k. table fc (st w) (uint a + int k)) [0..<unat q]))"
    and performs_write: "inv (st w) \<Longrightarrow> inb w = [] \<Longrightarrow> 0 < length rs \<Longrightarrow> length rs \<le> 123 \<Longrightarrow> unat a + length rs < 125 \<Longrightarrow>
      q = word_of_nat (length rs) \<Longrightarrow>
      \<exists>w' k. portWrite W h w (rtu_frame dev ([FCWriteMultipleRegisters, hi8 a, lo8 a, hi8 q, lo8 q, word_of_nat (2 * length rs)] @
          be_bytes rs)) = Ret (w', k, None) \<and> inv (st w') \<and>
        table FCReadHoldingRegisters (st w') = upd_range (table FCReadHoldingRegisters (st w)) (uint a) rs \<and>
        table FCReadInputRegisters (st w') = table FCReadInputRegisters (st w) \<and>
        inb w' = rtu_frame dev [FCWriteMultipleRegisters, hi8 a, lo8 a, hi8 q, lo8 q]"
begin

lemma client_read:
  assumes c: "ready c h" and w: "inv (st w)" "inb w = []" and fc: "fc = FCReadHoldingRegisters \<or> fc = FCReadInputRegisters"
    and n: "0 < length regs" "unat a + length regs \<le> 125"
  shows "\<exists>c' w'. readRegisters W (Suc (Suc fuel)) c w fc dev a regs =
      Some (Ret (c', w', map (\<lambda>k. table fc (st w) (uint a + int k)) [0..<length regs], None)) \<and>
    ready c' h \<and> inv (st w') \<and> inb w' = [] \<and> (\<forall>fc. table fc (st w') = table fc (st w))"
proof -
  let ?q = "word_of_nat (length regs) :: uint16" and ?vs = "map (\<lambda>k. table fc (st w) (uint a + int k)) [0..<length regs]"
  let ?req = "[fc, hi8 a, lo8 a, hi8 ?q, lo8 ?q]" and ?rsp = "fc # word_of_nat (length (be_bytes ?vs)) # be_bytes ?vs"
  have q: "unat ?q = length regs" using n by (simp add: unat_of_nat)
  obtain w1 k where w1: "portWrite W h w (rtu_frame dev ?req) = Ret (w1, k, None)" "inv (st w1)"
      "\<forall>fc. table fc (st w1) = table fc (st w)" "inb w1 = rtu_frame dev ?rsp @ []"
    using answers_read [OF w fc, of ?q a] n unfolding q by auto
  have tx: "length (cl_txbuf c) = 256" "\<not> muTx c" using c by (auto simp: ready_def)
  then obtain x r where xr: "cl_txbuf c = x # r" "length r = 255" by (cases "cl_txbuf c") auto
  let ?c = "c\<lparr>cl_txbuf := dev # ?req @ drop 5 r\<rparr>"
  have "readRequest fc r a ?q = Ret (?req @ drop 5 r, 5, None)"
    using fc xr n q by (auto simp: readRequest_def tx_unfold tx_simps word_le_nat_alt word_less_nat_alt)
  then have start: "readRegisters W (Suc (Suc fuel)) c w fc dev a regs =
      map_option (\<lambda>r. andThen r (\<lambda>(c, w, pdu, addr, err).
           if err \<noteq> None then Ret (c, w, regs, err)
           else case ReceiveDataResponse (pduBytes (cl_state c) pdu) of (d, err) \<Rightarrow>
             if err \<noteq> None then Ret (c, w, regs, err)
             else if length d \<noteq> length regs * 2 then Ret (c, w, regs, Some ErrWrongNumberOfRegisters)
             else andThen (getRegisters d [0..<length regs] regs) (\<lambda>regs. Ret (c, w, regs, None))))
         (transaction W (Suc (Suc fuel)) ?c w fc dev 8)"
    using tx xr by (simp add: readRegisters_def store_def)
  have ready: "ready ?c h" using c xr by (auto simp: ready_def)
  have "response_pdu ?rsp" using fc n unfolding response_pdu_def by force
  then obtain c' w' where r: "transaction W (Suc (Suc fuel)) ?c w fc dev 8 = Some (Ret (c', w', Some (1, length ?rsp), dev, None))"
      "ready c' h" "rxSlice (cl_state c') 1 (length ?rsp) = ?rsp" "inb w' = []" "st w' = st w1"
    using transaction_response [OF reads ready, of 8 ?req dev w w1 k dev ?rsp "[]" fc dev fuel] w1 by auto
  have "ReceiveDataResponse ?rsp = (be_bytes ?vs, None)" by (rule ReceiveData_ok) (use fc n in auto)
  moreover have "getRegisters (be_bytes ?vs) [0..<length regs] regs = Ret ?vs"
    using getRegisters_all [of "be_bytes ?vs" regs] data_regs_be_bytes [of ?vs "[]"] by simp
  ultimately show ?thesis
    using r w1 by (simp add: start pduBytes_def del: be_bytes_simps) 
qed

lemma client_write:
  assumes c: "ready c h" and w: "inv (st w)" "inb w = []" and n: "0 < length rs" "length rs \<le> 123" "unat a + length rs < 125"
  shows "\<exists>c' w'. WriteHoldingRegisters W (Suc (Suc fuel)) c w dev a rs = Some (Ret (c', w', None)) \<and>
    ready c' h \<and> inv (st w') \<and> inb w' = [] \<and>
    table FCReadHoldingRegisters (st w') = upd_range (table FCReadHoldingRegisters (st w)) (uint a) rs \<and>
    table FCReadInputRegisters (st w') = table FCReadInputRegisters (st w)"
proof -
  let ?q = "word_of_nat (length rs) :: uint16"
  let ?req = "[FCWriteMultipleRegisters, hi8 a, lo8 a, hi8 ?q, lo8 ?q, word_of_nat (2 * length rs)] @ be_bytes rs"
  let ?rsp = "[FCWriteMultipleRegisters, hi8 a, lo8 a, hi8 ?q, lo8 ?q]"
  obtain w1 k where w1: "portWrite W h w (rtu_frame dev ?req) = Ret (w1, k, None)" "inv (st w1)"
      "table FCReadHoldingRegisters (st w1) = upd_range (table FCReadHoldingRegisters (st w)) (uint a) rs"
      "table FCReadInputRegisters (st w1) = table FCReadInputRegisters (st w)" "inb w1 = rtu_frame dev ?rsp @ []"
    using performs_write [OF w n refl] by auto
  have tx: "length (cl_txbuf c) = 256" "\<not> muTx c" using c by (auto simp: ready_def)
  then obtain x r where xr: "cl_txbuf c = x # r" "length r = 255" by (cases "cl_txbuf c") auto
  let ?c = "c\<lparr>cl_txbuf := dev # ?req @ drop (6 + 2 * length rs) r\<rparr>"
  have start: "WriteHoldingRegisters W (Suc (Suc fuel)) c w dev a rs =
      map_option (\<lambda>r. andThen r (\<lambda>(c, w, pdu, addr, err). Ret (c, w, err)))
        (transaction W (Suc (Suc fuel)) ?c w FCWriteMultipleRegisters dev (length ?req + 3))"
    using tx xr n by (simp add: WriteHoldingRegisters_def store_def tx_simps)
  have ready: "ready ?c h" using c xr n by (auto simp: ready_def)
  have pdu: "response_pdu ?rsp" unfolding response_pdu_def by force
  have "take (length ?req + 1) (cl_txbuf ?c) = dev # ?req" by simp
  from transaction_response [OF reads ready refl _ this w1(1) w1(5) pdu, of FCWriteMultipleRegisters dev fuel] n
  obtain c' w' pdu where r: "transaction W (Suc (Suc fuel)) ?c w FCWriteMultipleRegisters dev (length ?req + 3) = Some (Ret (c', w', pdu, dev, None))"
      "ready c' h" "inb w' = []" "st w' = st w1"
    by auto
  show ?thesis using w1 r unfolding start by auto
qed

lemma client_write_read:
  assumes c: "ready c h" and w: "inv (st w)" "inb w = []" and n: "0 < length rs" "length rs \<le> 123" "unat a + length rs < 125"
    and regs: "length regs = length rs"
  shows "\<exists>c1 w1 c2 w2. WriteHoldingRegisters W (Suc (Suc fuel)) c w dev a rs = Some (Ret (c1, w1, None)) \<and>
    readRegisters W (Suc (Suc fuel)) c1 w1 FCReadHoldingRegisters dev a regs = Some (Ret (c2, w2, rs, None)) \<and>
    ready c2 h \<and> inv (st w2) \<and> inb w2 = []"
proof -
  obtain c1 w1 where r: "WriteHoldingRegisters W (Suc (Suc fuel)) c w dev a rs = Some (Ret (c1, w1, None))"
      "ready c1 h" "inv (st w1)" "inb w1 = []"
      "table FCReadHoldingRegisters (st w1) = upd_range (table FCReadHoldingRegisters (st w)) (uint a) rs"
    using client_write [OF c w n, of fuel] by blast
  have "map (\<lambda>k. table FCReadHoldingRegisters (st w1) (uint a + int k)) [0..<length regs] = rs"
    unfolding r(5) regs by (rule nth_equalityI) simp_all
  then show ?thesis
    using client_read [OF r(2-4), of FCReadHoldingRegisters regs a fuel] r(1) n regs by auto
qed

end

end
