(* ===== verification/Model_Access.thy ===== *)
theory Model_Access
  imports Data_Model
begin

text \<open>
  \<open>src/peamodbus.go\<close>, lines 66 to 153: \<open>readFromModel\<close> and \<open>writeToModel\<close>, which move
  the data of a PDU between a byte slice and the tables.  The loop counter, the register
  address and the offsets are \<open>uint16\<close> as in the code.  Then what they do on the models of
  the repository, for every table and on every refusal.
\<close>

section \<open>Reading\<close>

text \<open>\<open>dst[i/8] |= 1 << (i%8)\<close> or \<open>dst[i/8] &^= 1 << (i%8)\<close>.\<close>

definition putBit :: "byte list \<Rightarrow> uint16 \<Rightarrow> bool \<Rightarrow> byte list outcome" where
  "putBit dst i gotb =
     andThen (index dst (unat (i div 8))) (\<lambda>b.
       store dst (unat (i div 8))
         (if gotb then b OR push_bit (unat (i mod 8)) 1
          else b AND NOT (push_bit (unat (i mod 8)) 1)))"

text \<open>The body of the loop: one register or bit.\<close>

definition readStep :: "'s DataModelImpl \<Rightarrow> FunctionCode \<Rightarrow> uint16 \<Rightarrow> uint16 \<Rightarrow> 's DataModel \<Rightarrow> byte list \<Rightarrow>
    ('s DataModel \<times> byte list \<times> Exception) outcome" where
  "readStep I fc startAddress i model dst =
     (let ireg = startAddress + i in
      if fc = FCReadHoldingRegisters then
        andThen (GetHoldingRegister I model (uint ireg)) (\<lambda>(model, gotu16, exc).
          if exc \<noteq> ExceptionNone then Ret (model, dst, exc)
          else andThen (PutUint16 dst (unat (2 * i)) gotu16) (\<lambda>dst. Ret (model, dst, exc)))
      else if fc = FCReadInputRegisters then
        andThen (GetInputRegister I model (uint ireg)) (\<lambda>(model, gotu16, exc).
          if exc \<noteq> ExceptionNone then Ret (model, dst, exc)
          else andThen (PutUint16 dst (unat (2 * i)) gotu16) (\<lambda>dst. Ret (model, dst, exc)))
      else if fc = FCReadCoils then
        andThen (GetCoil I model (uint ireg)) (\<lambda>(model, gotb, exc).
          if exc \<noteq> ExceptionNone then Ret (model, dst, exc)
          else andThen (putBit dst i gotb) (\<lambda>dst. Ret (model, dst, exc)))
      else if fc = FCReadDiscreteInputs then
        andThen (GetDiscreteInput I model (uint ireg)) (\<lambda>(model, gotb, exc).
          if exc \<noteq> ExceptionNone then Ret (model, dst, exc)
          else andThen (putBit dst i gotb) (\<lambda>dst. Ret (model, dst, exc)))
      else Ret (model, dst, ExceptionNone))"

function readLoop :: "'s DataModelImpl \<Rightarrow> FunctionCode \<Rightarrow> uint16 \<Rightarrow> uint16 \<Rightarrow> uint16 \<Rightarrow> 's DataModel \<Rightarrow>
    byte list \<Rightarrow> Exception \<Rightarrow> ('s DataModel \<times> byte list \<times> Exception) outcome" where
  "readLoop I fc startAddress quantity i model dst exc =
     (if exc = ExceptionNone \<and> i < quantity then
        andThen (readStep I fc startAddress i model dst) (\<lambda>(model, dst, exc).
          readLoop I fc startAddress quantity (i + 1) model dst exc)
      else Ret (model, dst, exc))"
  by pat_completeness auto
termination
  by (relation "measure (\<lambda>(I, fc, s, q, i, m, d, e). unat q - unat i)")
    (auto simp: unat_Suc_below word_less_nat_alt)

declare readLoop.simps [simp del]

definition readFromModel :: "'s DataModelImpl \<Rightarrow> byte list \<Rightarrow> 's DataModel \<Rightarrow> FunctionCode \<Rightarrow> uint16 \<Rightarrow>
    uint16 \<Rightarrow> ('s DataModel \<times> byte list \<times> Exception) outcome" where
  "readFromModel I dst model fc startAddress quantity =
     (let bitSize = (fc = FCReadCoils \<or> fc = FCReadDiscreteInputs);
          endAddress = startAddress + quantity - 1;
          exc = (if quantity = 0 then ExceptionIllegalDataValue
                 else if \<not> bitSize \<and> fc \<noteq> FCReadHoldingRegisters \<and> fc \<noteq> FCReadInputRegisters
                   then ExceptionIllegalFunction
                 else if \<not> bitSize \<and> length dst mod 2 \<noteq> 0 then ExceptionIllegalDataValue
                 else if endAddress > 2000 \<or> (\<not> bitSize \<and> endAddress \<ge> 125)
                   then ExceptionIllegalDataAddr
                 else ExceptionNone)
      in andThen (lockDataModel model) (\<lambda>(model, unlock).
           andThen (readLoop I fc startAddress quantity 0 model dst exc) (\<lambda>(model, dst, exc).
             Ret (unlock model, dst, exc))))"

section \<open>Writing\<close>

definition writeStep :: "'s DataModelImpl \<Rightarrow> FunctionCode \<Rightarrow> uint16 \<Rightarrow> byte list \<Rightarrow> uint16 \<Rightarrow> 's DataModel \<Rightarrow>
    ('s DataModel \<times> Exception) outcome" where
  "writeStep I fc startAddress data i model =
     (let ireg = i + startAddress in
      if fc = FCWriteMultipleRegisters \<or> fc = FCWriteSingleRegister then
        andThen (Uint16 data (unat (i * 2))) (SetHoldingRegister I model (uint ireg))
      else if fc = FCWriteSingleCoil \<or> fc = FCWriteMultipleCoils then
        andThen (index data (unat (i div 8))) (\<lambda>b.
          SetCoil I model (uint ireg) (b AND push_bit (unat (i mod 8)) 1 \<noteq> 0))
      else Ret (model, ExceptionNone))"

function writeLoop :: "'s DataModelImpl \<Rightarrow> FunctionCode \<Rightarrow> uint16 \<Rightarrow> uint16 \<Rightarrow> byte list \<Rightarrow> uint16 \<Rightarrow>
    's DataModel \<Rightarrow> Exception \<Rightarrow> ('s DataModel \<times> Exception) outcome" where
  "writeLoop I fc startAddress quantity data i model exc =
     (if exc = ExceptionNone \<and> i < quantity then
        andThen (writeStep I fc startAddress data i model) (\<lambda>(model, exc).
          writeLoop I fc startAddress quantity data (i + 1) model exc)
      else Ret (model, exc))"
  by pat_completeness auto
termination
  by (relation "measure (\<lambda>(I, fc, s, q, d, i, m, e). unat q - unat i)")
    (auto simp: unat_Suc_below word_less_nat_alt)

declare writeLoop.simps [simp del]

definition writeToModel :: "'s DataModelImpl \<Rightarrow> 's DataModel \<Rightarrow> FunctionCode \<Rightarrow> uint16 \<Rightarrow> uint16 \<Rightarrow>
    byte list \<Rightarrow> ('s DataModel \<times> Exception) outcome" where
  "writeToModel I model fc startAddress quantity data =
     (let bitSize = (fc = FCWriteSingleCoil \<or> fc = FCWriteMultipleCoils);
          endAddress = startAddress + quantity;
          exc = (if \<not> bitSize \<and> fc \<noteq> FCWriteSingleRegister \<and> fc \<noteq> FCWriteMultipleRegisters
                   then ExceptionIllegalFunction
                 else if endAddress > 2000 \<or> (\<not> bitSize \<and> endAddress \<ge> 125)
                   then ExceptionIllegalDataAddr
                 else if quantity \<noteq> 1 \<and> (fc = FCWriteSingleCoil \<or> fc = FCWriteSingleRegister)
                   then ExceptionIllegalDataValue
                 else ExceptionNone)
      in andThen (lockDataModel model) (\<lambda>(model, unlock).
           andThen (writeLoop I fc startAddress quantity data 0 model exc) (\<lambda>(model, exc).
             Ret (unlock model, exc))))"

section \<open>The loops\<close>

text \<open>A read loop whose first \<open>m\<close> steps store through \<open>f\<close> folds \<open>f\<close> over the counter.\<close>

lemma readLoop_prefix:
  assumes step: "\<And>k d. length d = length dst \<Longrightarrow> k < m \<Longrightarrow>
      readStep I fc startAddress (word_of_nat k) model d = Ret (model, f k d, ExceptionNone) \<and>
      length (f k d) = length dst"
    and "m \<le> unat quantity"
  shows "readLoop I fc startAddress quantity 0 model dst ExceptionNone =
      readLoop I fc startAddress quantity (word_of_nat m) model (fold f [0..<m] dst) ExceptionNone \<and>
    length (fold f [0..<m] dst) = length dst"
  using assms
proof (induction m)
  case 0
  then show ?case by simp
next
  case (Suc m)
  let ?d = "fold f [0..<m] dst"
  have lt: "(word_of_nat m :: uint16) < quantity"
    using Suc.prems(2) by (intro word_of_nat_below) simp
  have IH: "readLoop I fc startAddress quantity 0 model dst ExceptionNone =
      readLoop I fc startAddress quantity (word_of_nat m) model ?d ExceptionNone"
    "length ?d = length dst"
    using Suc by auto
  have "readLoop I fc startAddress quantity (word_of_nat m) model ?d ExceptionNone =
      readLoop I fc startAddress quantity (word_of_nat (Suc m)) model (f m ?d) ExceptionNone"
    using lt Suc.prems(1) [of ?d m] IH(2)
    by (subst readLoop.simps) (simp del: of_nat_Suc add: word_of_nat_Suc)
  with IH Suc.prems(1) [of ?d m] show ?case by simp
qed

lemma readLoop_fold:
  assumes "\<And>k d. length d = length dst \<Longrightarrow> k < unat quantity \<Longrightarrow>
      readStep I fc startAddress (word_of_nat k) model d = Ret (model, f k d, ExceptionNone) \<and>
      length (f k d) = length dst"
  shows "readLoop I fc startAddress quantity 0 model dst ExceptionNone =
    Ret (model, fold f [0..<unat quantity] dst, ExceptionNone)"
  using readLoop_prefix [of dst "unat quantity" I fc startAddress model f quantity, OF assms]
  by (simp add: readLoop.simps)

text \<open>A read loop stops at the first step that reports an exception.\<close>

lemma readLoop_stop:
  assumes "\<And>k d. length d = length dst \<Longrightarrow> k < m \<Longrightarrow>
      readStep I fc startAddress (word_of_nat k) model d = Ret (model, f k d, ExceptionNone) \<and>
      length (f k d) = length dst"
    and "m < unat quantity"
    and "\<And>d. readStep I fc startAddress (word_of_nat m) model d = Ret (model, d, e)"
    and "e \<noteq> ExceptionNone"
  shows "\<exists>dst'. readLoop I fc startAddress quantity 0 model dst ExceptionNone = Ret (model, dst', e) \<and>
    length dst' = length dst"
proof -
  have "(word_of_nat m :: uint16) < quantity" using assms(2) by (rule word_of_nat_below)
  then have "readLoop I fc startAddress quantity (word_of_nat m) model (fold f [0..<m] dst) ExceptionNone =
      Ret (model, fold f [0..<m] dst, e)"
    using assms(3,4) by (subst readLoop.simps) (simp add: readLoop.simps)
  with readLoop_prefix [of dst m I fc startAddress model f quantity, OF assms(1)] assms(2)
  show ?thesis by simp
qed

text \<open>A write loop keeps what its first \<open>n\<close> steps keep, and stops at the first step that reports an exception.\<close>

lemma writeLoop_prefix:
  assumes step: "\<And>k m. P k m \<Longrightarrow> k < n \<Longrightarrow>
      \<exists>m'. writeStep I fc startAddress data (word_of_nat k) m = Ret (m', ExceptionNone) \<and> P (Suc k) m'"
    and start: "P 0 model" and "n \<le> unat quantity"
  shows "\<exists>m'. writeLoop I fc startAddress quantity data 0 model ExceptionNone =
      writeLoop I fc startAddress quantity data (word_of_nat n) m' ExceptionNone \<and> P n m'"
  using assms
proof (induction n)
  case 0
  then show ?case by auto
next
  case (Suc n)
  then have lt: "(word_of_nat n :: uint16) < quantity" by (intro word_of_nat_below) simp
  from Suc.IH Suc.prems obtain m where
    m: "writeLoop I fc startAddress quantity data 0 model ExceptionNone =
      writeLoop I fc startAddress quantity data (word_of_nat n) m ExceptionNone" "P n m"
    by auto
  from Suc.prems(1) [OF m(2)] obtain m' where
    m': "writeStep I fc startAddress data (word_of_nat n) m = Ret (m', ExceptionNone)" "P (Suc n) m'"
    by auto
  have "writeLoop I fc startAddress quantity data (word_of_nat n) m ExceptionNone =
      writeLoop I fc startAddress quantity data (word_of_nat (Suc n)) m' ExceptionNone"
    using lt m' by (subst writeLoop.simps) (simp del: of_nat_Suc add: word_of_nat_Suc)
  with m m' show ?case by auto
qed

lemma writeLoop_all:
  assumes "\<And>k m. P k m \<Longrightarrow> k < unat quantity \<Longrightarrow>
      \<exists>m'. writeStep I fc startAddress data (word_of_nat k) m = Ret (m', ExceptionNone) \<and> P (Suc k) m'"
    and "P 0 model"
  shows "\<exists>m'. writeLoop I fc startAddress quantity data 0 model ExceptionNone = Ret (m', ExceptionNone) \<and>
    P (unat quantity) m'"
  using writeLoop_prefix [of P "unat quantity" I fc startAddress data model quantity, OF assms]
  by (auto simp: writeLoop.simps [of _ _ _ _ _ quantity])

lemma writeLoop_stop:
  assumes "\<And>k m. P k m \<Longrightarrow> k < n \<Longrightarrow>
      \<exists>m'. writeStep I fc startAddress data (word_of_nat k) m = Ret (m', ExceptionNone) \<and> P (Suc k) m'"
    and "P 0 model" and "n < unat quantity"
    and stop: "\<And>m. P n m \<Longrightarrow> writeStep I fc startAddress data (word_of_nat n) m = Ret (m, e)"
    and "e \<noteq> ExceptionNone"
  shows "\<exists>m'. writeLoop I fc startAddress quantity data 0 model ExceptionNone = Ret (m', e) \<and> P n m'"
proof -
  obtain m' where m': "writeLoop I fc startAddress quantity data 0 model ExceptionNone =
      writeLoop I fc startAddress quantity data (word_of_nat n) m' ExceptionNone" "P n m'"
    using writeLoop_prefix [of P n I fc startAddress data model quantity, OF assms(1,2)] assms(3) by auto
  have "(word_of_nat n :: uint16) < quantity" using assms(3) by (rule word_of_nat_below)
  then have "writeLoop I fc startAddress quantity data (word_of_nat n) m' ExceptionNone = Ret (m', e)"
    using stop [OF m'(2)] assms(5) by (subst writeLoop.simps) (simp add: writeLoop.simps)
  with m' show ?thesis by auto
qed

section \<open>What the loops store\<close>

text \<open>Bit \<open>j\<close> of a packed byte string, least significant bit of the first byte first.\<close>

definition packed_bit :: "byte list \<Rightarrow> nat \<Rightarrow> bool" where
  "packed_bit d j = bit (d ! (j div 8)) (j mod 8)"

lemma packed_bit_update:
  assumes "k div 8 < length d" and "j div 8 < length d"
  shows "packed_bit (d[k div 8 := (if c then d ! (k div 8) OR push_bit (k mod 8) 1
      else d ! (k div 8) AND NOT (push_bit (k mod 8) 1))]) j = (if j = k then c else packed_bit d j)"
proof (cases "j div 8 = k div 8")
  case True
  then have "j mod 8 = k mod 8 \<longleftrightarrow> j = k" by (metis div_mult_mod_eq)
  with True assms show ?thesis
    by (simp only: packed_bit_def nth_list_update_eq) (simp add: bit_put_bit)
next
  case False
  with assms show ?thesis by (auto simp: packed_bit_def)
qed

definition storeBit :: "(nat \<Rightarrow> bool) \<Rightarrow> nat \<Rightarrow> byte list \<Rightarrow> byte list" where
  "storeBit c k d = d[k div 8 := (if c k then d ! (k div 8) OR push_bit (k mod 8) 1
      else d ! (k div 8) AND NOT (push_bit (k mod 8) 1))]"

lemma length_storeBit [simp]: "length (storeBit c k d) = length d"
  by (simp add: storeBit_def)

lemma length_fold_storeBit [simp]: "length (fold (storeBit c) ks d) = length d"
  by (induction ks arbitrary: d) auto

lemma packed_bit_fold:
  assumes "n \<le> 8 * length d" and "j < 8 * length d"
  shows "packed_bit (fold (storeBit c) [0..<n] d) j = (if j < n then c j else packed_bit d j)"
  using assms
proof (induction n)
  case 0
  then show ?case by simp
next
  case (Suc n)
  then have "n div 8 < length d" "j div 8 < length d" by auto
  then have "packed_bit (storeBit c n (fold (storeBit c) [0..<n] d)) j =
      (if j = n then c n else packed_bit (fold (storeBit c) [0..<n] d) j)"
    unfolding storeBit_def [of c n] by (subst packed_bit_update) auto
  with Suc show ?case by auto
qed

section \<open>One step\<close>

definition regs_of :: "FunctionCode \<Rightarrow> 's DataModel \<Rightarrow> int \<Rightarrow> uint16" where
  "regs_of fc dm = (if fc = FCReadHoldingRegisters then holding dm else inputs dm)"

definition bits_of :: "FunctionCode \<Rightarrow> 's DataModel \<Rightarrow> int \<Rightarrow> bool" where
  "bits_of fc dm = (if fc = FCReadCoils then coil dm else discrete dm)"

lemma uint_addr:
  fixes s :: uint16
  assumes "unat s + k < 65536"
  shows "uint (s + word_of_nat k) = uint s + int k"
proof -
  have "unat (s + word_of_nat k) = unat s + k"
    using assms by (simp add: unat_word_ariths unat_of_nat)
  then show ?thesis by (metis of_nat_add uint_nat)
qed

lemma uint_bound:
  fixes s :: uint16
  shows "uint s + int k < int n \<longleftrightarrow> unat s + k < n"
  by (metis of_nat_add of_nat_less_iff uint_nat)

lemma unat_double:
  assumes "2 * k < 65536"
  shows "unat (2 * (word_of_nat k :: uint16)) = 2 * k"
  using assms by (simp add: unat_word_ariths unat_of_nat)

text \<open>One step of the loop on a model of the repository.\<close>

lemma readStep_register:
  assumes "dm_ok m" and "fc = FCReadHoldingRegisters \<or> fc = FCReadInputRegisters"
    and "unat s + k < 125" and "2 * k + 1 < length d" and "2 * k < 65536"
  shows "readStep I fc s (word_of_nat k) m d =
    Ret (m, d[2 * k := hi8 (regs_of fc m (uint s + int k)),
              2 * k + 1 := lo8 (regs_of fc m (uint s + int k))], ExceptionNone)"
proof -
  have "uint (s + word_of_nat k) = uint s + int k"
    using assms(3) by (intro uint_addr) simp
  then show ?thesis
    using assms holding.get_in [of m "uint s + int k" I] inputs.get_in [of m "uint s + int k" I]
      unat_double [of k] uint_bound [of s k 125]
    by (auto simp: readStep_def regs_of_def go_simps)
qed

lemma readStep_bit:
  assumes "dm_ok m" and "fc = FCReadCoils \<or> fc = FCReadDiscreteInputs"
    and "unat s + k < 2000" and "k < 8 * length d" and "k < 65536"
  shows "readStep I fc s (word_of_nat k) m d =
    Ret (m, storeBit (\<lambda>k. bits_of fc m (uint s + int k)) k d, ExceptionNone)"
proof -
  have "uint (s + word_of_nat k) = uint s + int k"
    using assms(3) by (intro uint_addr) simp
  moreover have "unat (word_of_nat k div 8 :: uint16) = k div 8" "unat (word_of_nat k mod 8 :: uint16) = k mod 8"
    using assms(5) by (simp_all add: unat_div unat_mod unat_of_nat)
  moreover have "k div 8 < length d" using assms(4) by simp
  ultimately show ?thesis
    using assms coil.get_in [of m "uint s + int k" I] discrete.get_in [of m "uint s + int k" I]
      uint_bound [of s k 2000]
    by (auto simp: readStep_def bits_of_def putBit_def storeBit_def index_def store_def)
qed

lemma readStep_register_out:
  assumes "dm_ok m" and "fc = FCReadHoldingRegisters \<or> fc = FCReadInputRegisters"
    and "125 \<le> uint (s + i)"
  shows "readStep I fc s i m d = Ret (m, d, ExceptionIllegalDataAddr)"
  using assms holding.get_out [of m "uint (s + i)" I] inputs.get_out [of m "uint (s + i)" I]
  by (auto simp: readStep_def)

lemma readStep_bit_out:
  assumes "dm_ok m" and "fc = FCReadCoils \<or> fc = FCReadDiscreteInputs"
    and "2000 \<le> uint (s + i)"
  shows "readStep I fc s i m d = Ret (m, d, ExceptionIllegalDataAddr)"
  using assms coil.get_out [of m "uint (s + i)" I] discrete.get_out [of m "uint (s + i)" I]
  by (auto simp: readStep_def)

lemma unat_add_small:
  fixes a b :: uint16
  assumes "unat a + unat b < 65536"
  shows "unat (a + b) = unat a + unat b"
  using assms by (simp add: unat_word_ariths)

lemma unat_end_address:
  fixes s q :: uint16
  assumes "0 < unat q" and "unat s + unat q \<le> 65536"
  shows "unat (s + q - 1) = unat s + unat q - 1"
proof -
  have "s + q - 1 = word_of_nat (unat s + unat q - 1)"
    using assms(1) by simp
  then have "unat (s + q - 1) = (unat s + unat q - 1) mod 65536"
    by (simp only: unat_of_nat) simp
  with assms show ?thesis by simp
qed

text \<open>The address where a table of \<open>n\<close> entries ends, met by every range that passes it.\<close>

lemma first_address_out:
  fixes s :: uint16
  assumes "n < 65536"
  shows "int n \<le> uint (s + word_of_nat (n - unat s))"
proof (cases "unat s \<le> n")
  case True
  then have "uint (s + word_of_nat (n - unat s)) = uint s + int (n - unat s)"
    using assms by (intro uint_addr) simp
  also have "\<dots> = int (unat s + (n - unat s))" by (simp only: uint_nat of_nat_add)
  finally show ?thesis using True by simp
next
  case False
  then have "int n \<le> int (unat s)" by linarith
  then have "int n \<le> uint s" by (simp only: uint_nat)
  with False show ?thesis by simp
qed

section \<open>Reads\<close>

lemma read_registers:
  assumes "dm_ok dm" and fc: "fc = FCReadHoldingRegisters \<or> fc = FCReadInputRegisters"
    and "0 < unat q" and "unat s + unat q \<le> 125"
    and "2 * unat q \<le> length dst" and "even (length dst)"
  shows "readFromModel I dst dm fc s q =
    Ret (dm, be_bytes (map (\<lambda>k. regs_of fc dm (uint s + int k)) [0..<unat q]) @ drop (2 * unat q) dst,
      ExceptionNone)"
proof -
  let ?m = "unlocked dm"
  let ?v = "\<lambda>k. regs_of fc dm (uint s + int k)"
  have eq: "regs_of fc ?m = regs_of fc dm" by (simp add: regs_of_def tables_cong [of ?m dm])
  have "readLoop I fc s q 0 ?m dst ExceptionNone =
      Ret (?m, fold (\<lambda>k d. d[2 * k := hi8 (?v k), 2 * k + 1 := lo8 (?v k)]) [0..<unat q] dst, ExceptionNone)"
    using readStep_register [of ?m fc s] assms
    by (intro readLoop_fold) (simp add: eq)
  also have "\<dots> = Ret (?m, be_bytes (map ?v [0..<unat q]) @ drop (2 * unat q) dst, ExceptionNone)"
    using assms(5) by (simp only: fold_put16)
  finally have loop: "readLoop I fc s q 0 ?m dst ExceptionNone = \<dots>" .
  have "unat (s + q - 1) < 125"
    using assms(3,4) by (subst unat_end_address) auto
  then have "\<not> s + q - 1 > 2000" "\<not> s + q - 1 \<ge> 125" by (simp_all add: word_less_nat_alt word_le_nat_alt)
  moreover have "q \<noteq> 0" using assms(3) by auto
  ultimately show ?thesis
    using fc assms(1,6) loop by (auto simp: readFromModel_def Let_def)
qed

lemma read_bits:
  assumes "dm_ok dm" and fc: "fc = FCReadCoils \<or> fc = FCReadDiscreteInputs"
    and "0 < unat q" and "unat s + unat q \<le> 2000" and "unat q \<le> 8 * length dst"
  shows "readFromModel I dst dm fc s q =
    Ret (dm, fold (storeBit (\<lambda>k. bits_of fc dm (uint s + int k))) [0..<unat q] dst, ExceptionNone)"
proof -
  let ?m = "unlocked dm"
  have eq: "bits_of fc ?m = bits_of fc dm" by (simp add: bits_of_def tables_cong [of ?m dm])
  have "readLoop I fc s q 0 ?m dst ExceptionNone =
      Ret (?m, fold (storeBit (\<lambda>k. bits_of fc dm (uint s + int k))) [0..<unat q] dst, ExceptionNone)"
    using readStep_bit [of ?m fc s] assms
    by (intro readLoop_fold) (simp add: eq)
  moreover have "unat (s + q - 1) \<le> 2000"
    using assms(3,4) by (subst unat_end_address) auto
  then have "\<not> s + q - 1 > 2000" by (simp add: word_less_nat_alt)
  moreover have "q \<noteq> 0" using assms(3) by auto
  ultimately show ?thesis
    using fc assms(1) by (auto simp: readFromModel_def Let_def)
qed

text \<open>
  A read that passes the end of the table: the check on the last address refuses it, or the
  loop meets the first address outside the table.
\<close>

lemma read_registers_out:
  assumes "dm_ok dm" and fc: "fc = FCReadHoldingRegisters \<or> fc = FCReadInputRegisters"
    and "0 < unat q" and "125 < unat s + unat q"
    and "65536 < unat s + unat q \<Longrightarrow> 2 * (125 - unat s) \<le> length dst" and "even (length dst)"
  shows "\<exists>dst'. readFromModel I dst dm fc s q = Ret (dm, dst', ExceptionIllegalDataAddr) \<and>
    length dst' = length dst"
proof (cases "65536 < unat s + unat q")
  case True
  let ?m = "unlocked dm" and ?n = "125 - unat s"
  let ?f = "\<lambda>k d. d[2 * k := hi8 (regs_of fc ?m (uint s + int k)),
    2 * k + 1 := lo8 (regs_of fc ?m (uint s + int k))]"
  have "\<exists>dst'. readLoop I fc s q 0 ?m dst ExceptionNone = Ret (?m, dst', ExceptionIllegalDataAddr) \<and>
      length dst' = length dst"
  proof (rule readLoop_stop [where m = ?n and f = ?f])
    show "?n < unat q" using assms(3,4) by linarith
    show "readStep I fc s (word_of_nat k) ?m d = Ret (?m, ?f k d, ExceptionNone) \<and>
        length (?f k d) = length dst"
      if "length d = length dst" "k < ?n" for k d
      using that readStep_register [of ?m fc s k d I] assms(1,2) assms(5) [OF True] by auto
    show "readStep I fc s (word_of_nat ?n) ?m d = Ret (?m, d, ExceptionIllegalDataAddr)" for d
      using readStep_register_out [of ?m fc s _ I d] first_address_out [of 125 s] assms(1,2) by simp
  qed simp
  moreover have "q \<noteq> 0" using assms(3) by auto
  ultimately show ?thesis
    using fc assms(1,6) by (auto simp: readFromModel_def Let_def readLoop.simps [of _ _ _ _ _ _ _ 2])
next
  case False
  then have "125 \<le> unat (s + q - 1)" using assms(3,4) by (subst unat_end_address) auto
  then have "s + q - 1 \<ge> 125" by (simp add: word_le_nat_alt)
  moreover have "q \<noteq> 0" using assms(3) by auto
  ultimately show ?thesis
    using fc assms(1,6) by (auto simp: readFromModel_def Let_def readLoop.simps)
qed

lemma read_bits_out:
  assumes "dm_ok dm" and fc: "fc = FCReadCoils \<or> fc = FCReadDiscreteInputs"
    and "0 < unat q" and "2000 < unat s + unat q" and "unat q \<le> 8 * length dst"
  shows "\<exists>dst'. readFromModel I dst dm fc s q = Ret (dm, dst', ExceptionIllegalDataAddr) \<and>
    length dst' = length dst"
proof -
  let ?m = "unlocked dm" and ?n = "2000 - unat s"
  let ?f = "storeBit (\<lambda>k. bits_of fc ?m (uint s + int k))"
  have "\<exists>dst'. readLoop I fc s q 0 ?m dst ExceptionNone = Ret (?m, dst', ExceptionIllegalDataAddr) \<and>
      length dst' = length dst"
  proof (rule readLoop_stop [where m = ?n and f = ?f])
    show "?n < unat q" using assms(3,4) by linarith
    show "readStep I fc s (word_of_nat k) ?m d = Ret (?m, ?f k d, ExceptionNone) \<and>
        length (?f k d) = length dst"
      if "length d = length dst" "k < ?n" for k d
      using that readStep_bit [of ?m fc s k d I] \<open>?n < unat q\<close> assms by auto
    show "readStep I fc s (word_of_nat ?n) ?m d = Ret (?m, d, ExceptionIllegalDataAddr)" for d
      using readStep_bit_out [of ?m fc s _ I d] first_address_out [of 2000 s] assms(1,2) by simp
  qed simp
  moreover have "q \<noteq> 0" using assms(3) by auto
  ultimately show ?thesis
    using fc assms(1) by (auto simp: readFromModel_def Let_def readLoop.simps [of _ _ _ _ _ _ _ 2])
qed

section \<open>Writes\<close>

lemma writeStep_register:
  assumes "dm_ok m" and "fc = FCWriteMultipleRegisters \<or> fc = FCWriteSingleRegister"
    and "unat s + k < 125" and "2 * k + 1 < length data"
  shows "\<exists>m'. writeStep I fc s data (word_of_nat k) m = Ret (m', ExceptionNone) \<and> dm_ok m' \<and>
    holding m' = (holding m)(uint s + int k := be16 (data ! (2 * k)) (data ! (2 * k + 1))) \<and>
    inputs m' = inputs m \<and> coil m' = coil m \<and> discrete m' = discrete m"
proof -
  have "uint (word_of_nat k + s) = uint s + int k"
    using assms(3) uint_addr [of s k] by (simp add: add.commute)
  moreover have "unat (word_of_nat k * 2 :: uint16) = 2 * k"
    using assms(3) unat_double [of k] by (simp add: mult.commute)
  ultimately show ?thesis
    using assms holding.set_in [of m "uint s + int k" I] uint_bound [of s k 125]
    by (auto simp: writeStep_def go_simps)
qed

lemma writeStep_coil:
  assumes "dm_ok m" and "fc = FCWriteMultipleCoils \<or> fc = FCWriteSingleCoil"
    and "unat s + k < 2000" and "k < 8 * length data"
  shows "\<exists>m'. writeStep I fc s data (word_of_nat k) m = Ret (m', ExceptionNone) \<and> dm_ok m' \<and>
    coil m' = (coil m)(uint s + int k := packed_bit data k) \<and>
    holding m' = holding m \<and> inputs m' = inputs m \<and> discrete m' = discrete m"
proof -
  have "uint (word_of_nat k + s) = uint s + int k"
    using assms(3) uint_addr [of s k] by (simp add: add.commute)
  moreover have "unat (word_of_nat k div 8 :: uint16) = k div 8" "unat (word_of_nat k mod 8 :: uint16) = k mod 8"
    using assms(3) by (simp_all add: unat_div unat_mod unat_of_nat)
  moreover have "k div 8 < length data" using assms(4) by simp
  ultimately show ?thesis
    using assms coil.set_in [of m "uint s + int k" I] uint_bound [of s k 2000]
    by (auto simp: writeStep_def index_def packed_bit_def and_single_bit)
qed

lemma writeStep_register_out:
  assumes "dm_ok m" and "fc = FCWriteMultipleRegisters \<or> fc = FCWriteSingleRegister"
    and "125 \<le> uint (i + s)" and "unat (i * 2) + 1 < length data"
  shows "writeStep I fc s data i m = Ret (m, ExceptionIllegalDataAddr)"
  using assms holding.set_out [of m "uint (i + s)" I] by (auto simp: writeStep_def go_simps)

lemma writeStep_coil_out:
  assumes "dm_ok m" and "fc = FCWriteMultipleCoils \<or> fc = FCWriteSingleCoil"
    and "2000 \<le> uint (i + s)" and "unat (i div 8) < length data"
  shows "writeStep I fc s data i m = Ret (m, ExceptionIllegalDataAddr)"
  using assms coil.set_out [of m "uint (i + s)" I] by (auto simp: writeStep_def index_def)

lemma write_registers:
  fixes dm :: "'s DataModel"
  assumes "dm_ok dm"
    and fc: "fc = FCWriteMultipleRegisters \<or> fc = FCWriteSingleRegister \<and> q = 1"
    and "unat s + unat q < 125" and "2 * unat q \<le> length data"
  shows "\<exists>dm'. writeToModel I dm fc s q data = Ret (dm', ExceptionNone) \<and> dm_ok dm' \<and>
    holding dm' = upd_range (holding dm) (uint s) (data_regs data (unat q)) \<and>
    inputs dm' = inputs dm \<and> coil dm' = coil dm \<and> discrete dm' = discrete dm"
proof -
  let ?m = "unlocked dm" and ?vs = "data_regs data (unat q)"
  let ?P = "\<lambda>k (m :: 's DataModel). dm_ok m \<and> holding m = upd_range (holding dm) (uint s) (take k ?vs) \<and>
    inputs m = inputs dm \<and> coil m = coil dm \<and> discrete m = discrete dm"
  have "\<exists>m'. writeLoop I fc s q data 0 ?m ExceptionNone = Ret (m', ExceptionNone) \<and> ?P (unat q) m'"
  proof (rule writeLoop_all [where P = ?P])
    show "?P 0 ?m" using assms(1) tables_cong [of ?m dm] by simp
    fix k m
    assume P: "?P k m" and k: "k < unat q"
    have "?vs ! k = be16 (data ! (2 * k)) (data ! (2 * k + 1))" using k by (simp add: data_regs_def)
    with writeStep_register [of m fc s k data I] P k assms
    show "\<exists>m'. writeStep I fc s data (word_of_nat k) m = Ret (m', ExceptionNone) \<and> ?P (Suc k) m'"
      by (auto simp: take_Suc_upd)
  qed
  then obtain m' where m': "writeLoop I fc s q data 0 ?m ExceptionNone = Ret (m', ExceptionNone)"
    "?P (unat q) m'"
    by blast
  have "unat (s + q) < 125" using assms(3) by (subst unat_add_small) auto
  then have "\<not> s + q > 2000" "\<not> s + q \<ge> 125" by (simp_all add: word_less_nat_alt word_le_nat_alt)
  with fc m' assms(1) tables_cong [of "relock dm m'" m'] show ?thesis
    by (intro exI [of _ "relock dm m'"]) (auto simp: writeToModel_def Let_def)
qed

lemma write_coils:
  fixes dm :: "'s DataModel"
  assumes "dm_ok dm"
    and fc: "fc = FCWriteMultipleCoils \<or> fc = FCWriteSingleCoil \<and> q = 1"
    and "unat s + unat q \<le> 2000" and "unat q \<le> 8 * length data"
  shows "\<exists>dm'. writeToModel I dm fc s q data = Ret (dm', ExceptionNone) \<and> dm_ok dm' \<and>
    coil dm' = upd_range (coil dm) (uint s) (map (packed_bit data) [0..<unat q]) \<and>
    holding dm' = holding dm \<and> inputs dm' = inputs dm \<and> discrete dm' = discrete dm"
proof -
  let ?m = "unlocked dm" and ?vs = "map (packed_bit data) [0..<unat q]"
  let ?P = "\<lambda>k (m :: 's DataModel). dm_ok m \<and> coil m = upd_range (coil dm) (uint s) (take k ?vs) \<and>
    holding m = holding dm \<and> inputs m = inputs dm \<and> discrete m = discrete dm"
  have "\<exists>m'. writeLoop I fc s q data 0 ?m ExceptionNone = Ret (m', ExceptionNone) \<and> ?P (unat q) m'"
  proof (rule writeLoop_all [where P = ?P])
    show "?P 0 ?m" using assms(1) tables_cong [of ?m dm] by simp
    fix k m
    assume P: "?P k m" and k: "k < unat q"
    have "?vs ! k = packed_bit data k" using k by simp
    with writeStep_coil [of m fc s k data I] take_Suc_upd [of k ?vs "coil dm" "uint s"] P k assms
    show "\<exists>m'. writeStep I fc s data (word_of_nat k) m = Ret (m', ExceptionNone) \<and> ?P (Suc k) m'"
      by auto
  qed
  then obtain m' where m': "writeLoop I fc s q data 0 ?m ExceptionNone = Ret (m', ExceptionNone)"
    "?P (unat q) m'"
    by blast
  have "unat (s + q) \<le> 2000" using assms(3) by (subst unat_add_small) auto
  then have "\<not> s + q > 2000" by (simp add: word_less_nat_alt)
  with fc m' assms(1) tables_cong [of "relock dm m'" m'] show ?thesis
    by (intro exI [of _ "relock dm m'"]) (auto simp: writeToModel_def Let_def)
qed

text \<open>
  A range whose end address wraps around the 16-bit address space and comes out inside the table passes
  the check.  The loop then stores up to the end of the table before it meets an illegal address.
\<close>

lemma unat_uint16: "unat (a :: uint16) < 65536"
  using unsigned_less [of a, where ?'a = nat] by simp

lemma unat_add_wrap:
  fixes a b :: uint16
  assumes "65536 \<le> unat a + unat b"
  shows "unat (a + b) = unat a + unat b - 65536"
  using assms unat_uint16 [of a] unat_uint16 [of b] by (simp add: unat_word_ariths mod_if)

lemma write_registers_wrap:
  fixes dm :: "'s DataModel"
  assumes "dm_ok dm"
    and fc: "fc = FCWriteMultipleRegisters \<or> fc = FCWriteSingleRegister \<and> q = 1"
    and "65536 \<le> unat s + unat q" and "unat s + unat q < 65536 + 125"
    and "2 * max 1 (126 - unat s) \<le> length data"
  shows "\<exists>dm'. writeToModel I dm fc s q data = Ret (dm', ExceptionIllegalDataAddr) \<and> dm_ok dm' \<and>
    holding dm' = upd_range (holding dm) (uint s) (data_regs data (125 - unat s)) \<and>
    inputs dm' = inputs dm \<and> coil dm' = coil dm \<and> discrete dm' = discrete dm"
proof -
  let ?m = "unlocked dm" and ?n = "125 - unat s"
  let ?vs = "data_regs data ?n"
  let ?P = "\<lambda>k (m :: 's DataModel). dm_ok m \<and> holding m = upd_range (holding dm) (uint s) (take k ?vs) \<and>
    inputs m = inputs dm \<and> coil m = coil dm \<and> discrete m = discrete dm"
  have "\<exists>m'. writeLoop I fc s q data 0 ?m ExceptionNone = Ret (m', ExceptionIllegalDataAddr) \<and> ?P ?n m'"
  proof (rule writeLoop_stop [where P = ?P])
    show "?P 0 ?m" using assms(1) tables_cong [of ?m dm] by simp
    show "?n < unat q" using assms(3) unat_uint16 [of s] by linarith
    fix k m
    assume P: "?P k m" and k: "k < ?n"
    have "?vs ! k = be16 (data ! (2 * k)) (data ! (2 * k + 1))" using k by (simp add: data_regs_def)
    with writeStep_register [of m fc s k data I] P k assms(2,5)
    show "\<exists>m'. writeStep I fc s data (word_of_nat k) m = Ret (m', ExceptionNone) \<and> ?P (Suc k) m'"
      by (auto simp: take_Suc_upd)
  next
    fix m
    assume "?P ?n m"
    moreover have "unat (word_of_nat ?n * 2 :: uint16) = 2 * ?n"
      using unat_double [of ?n] by (simp add: mult.commute)
    moreover have "125 \<le> uint (word_of_nat ?n + s)"
      using first_address_out [of 125 s] by (simp add: add.commute)
    ultimately show "writeStep I fc s data (word_of_nat ?n) m = Ret (m, ExceptionIllegalDataAddr)"
      using assms(2,5) by (intro writeStep_register_out) auto
  qed simp
  then obtain m' where m': "writeLoop I fc s q data 0 ?m ExceptionNone = Ret (m', ExceptionIllegalDataAddr)"
    "?P ?n m'"
    by blast
  have "unat (s + q) < 125" using unat_add_wrap [OF assms(3)] assms(4) by simp
  then have "\<not> s + q > 2000" "\<not> s + q \<ge> 125" by (simp_all add: word_less_nat_alt word_le_nat_alt)
  with fc m' assms(1) tables_cong [of "relock dm m'" m'] show ?thesis
    by (intro exI [of _ "relock dm m'"]) (auto simp: writeToModel_def Let_def)
qed

lemma write_coils_wrap:
  fixes dm :: "'s DataModel"
  assumes "dm_ok dm"
    and fc: "fc = FCWriteMultipleCoils \<or> fc = FCWriteSingleCoil \<and> q = 1"
    and "65536 \<le> unat s + unat q" and "unat s + unat q \<le> 65536 + 2000"
    and "max 1 (2001 - unat s) \<le> 8 * length data"
  shows "\<exists>dm'. writeToModel I dm fc s q data = Ret (dm', ExceptionIllegalDataAddr) \<and> dm_ok dm' \<and>
    coil dm' = upd_range (coil dm) (uint s) (map (packed_bit data) [0..<2000 - unat s]) \<and>
    holding dm' = holding dm \<and> inputs dm' = inputs dm \<and> discrete dm' = discrete dm"
proof -
  let ?m = "unlocked dm" and ?n = "2000 - unat s"
  let ?vs = "map (packed_bit data) [0..<?n]"
  let ?P = "\<lambda>k (m :: 's DataModel). dm_ok m \<and> coil m = upd_range (coil dm) (uint s) (take k ?vs) \<and>
    holding m = holding dm \<and> inputs m = inputs dm \<and> discrete m = discrete dm"
  have "\<exists>m'. writeLoop I fc s q data 0 ?m ExceptionNone = Ret (m', ExceptionIllegalDataAddr) \<and> ?P ?n m'"
  proof (rule writeLoop_stop [where P = ?P])
    show "?P 0 ?m" using assms(1) tables_cong [of ?m dm] by simp
    show "?n < unat q" using assms(3) unat_uint16 [of s] by linarith
    fix k m
    assume P: "?P k m" and k: "k < ?n"
    have "?vs ! k = packed_bit data k" using k by simp
    with writeStep_coil [of m fc s k data I] take_Suc_upd [of k ?vs "coil dm" "uint s"] P k assms(2,5)
    show "\<exists>m'. writeStep I fc s data (word_of_nat k) m = Ret (m', ExceptionNone) \<and> ?P (Suc k) m'"
      by auto
  next
    fix m
    assume "?P ?n m"
    moreover have "unat (word_of_nat ?n div 8 :: uint16) = ?n div 8"
      by (simp add: unat_div unat_of_nat)
    moreover have "2000 \<le> uint (word_of_nat ?n + s)"
      using first_address_out [of 2000 s] by (simp add: add.commute)
    ultimately show "writeStep I fc s data (word_of_nat ?n) m = Ret (m, ExceptionIllegalDataAddr)"
      using assms(2,5) by (intro writeStep_coil_out) auto
  qed simp
  then obtain m' where m': "writeLoop I fc s q data 0 ?m ExceptionNone = Ret (m', ExceptionIllegalDataAddr)"
    "?P ?n m'"
    by blast
  have "unat (s + q) \<le> 2000" using unat_add_wrap [OF assms(3)] assms(4) by simp
  then have "\<not> s + q > 2000" by (simp add: word_less_nat_alt)
  with fc m' assms(1) tables_cong [of "relock dm m'" m'] show ?thesis
    by (intro exI [of _ "relock dm m'"]) (auto simp: writeToModel_def Let_def)
qed

text \<open>
  A write whose 16-bit end address is out of the table is refused before the loop, and the model is as
  it was.  For registers the end address has to be below 125, so that the last register written is 123.
\<close>

lemma write_out:
  assumes "dm_ok dm"
    and fc: "fc = FCWriteMultipleRegisters \<or> fc = FCWriteSingleRegister \<or>
      fc = FCWriteMultipleCoils \<or> fc = FCWriteSingleCoil"
    and "if fc = FCWriteMultipleRegisters \<or> fc = FCWriteSingleRegister then 125 \<le> unat (s + q)
      else 2000 < unat (s + q)"
  shows "writeToModel I dm fc s q data = Ret (dm, ExceptionIllegalDataAddr)"
proof -
  from assms(3) have "if fc = FCWriteMultipleRegisters \<or> fc = FCWriteSingleRegister then s + q \<ge> 125
      else s + q > 2000"
    by (simp add: word_less_nat_alt word_le_nat_alt split: if_splits)
  with fc assms(1) show ?thesis
    by (auto simp: writeToModel_def Let_def writeLoop.simps)
qed

text \<open>The 16-bit sum of an address and a quantity, with and without wrap-around.\<close>

lemma unat_end:
  fixes a b :: uint16
  shows "unat (a + b) = (if unat a + unat b < 65536 then unat a + unat b else unat a + unat b - 65536)"
  using unat_add_small [of a b] unat_add_wrap [of a b] by auto

section \<open>Properties\<close>

text \<open>
  C9. Reading \<open>q\<close> registers from address \<open>a\<close>: inside the table the answer is the \<open>q\<close> registers, big endian, at
  the start of the destination; a range that passes the end of the table, or wraps around the address
  space, is an illegal address.  The model is unchanged and the lock is released.
\<close>

theorem read_registers_correct:
  assumes "dm_ok dm" and "fc = FCReadHoldingRegisters \<or> fc = FCReadInputRegisters"
    and "0 < unat q" and "2 * unat q \<le> length dst" and "even (length dst)"
  shows "\<exists>dst' exc. readFromModel I dst dm fc a q = Ret (dm, dst', exc) \<and> length dst' = length dst \<and>
    (if unat a + unat q \<le> 125
     then exc = ExceptionNone \<and>
       dst' = be_bytes (map (\<lambda>k. regs_of fc dm (uint a + int k)) [0..<unat q]) @ drop (2 * unat q) dst
     else exc = ExceptionIllegalDataAddr)"
  using read_registers [OF assms(1-3) _ assms(4,5), of a I] read_registers_out [OF assms(1-3) _ _ assms(5), of a I] assms(4)
  by (cases "unat a + unat q \<le> 125") auto

theorem read_registers_correct_witness:
  "\<exists>dst' exc. readFromModel noTables (replicate 10 0) freshModel FCReadHoldingRegisters 0xffff 2 = Ret (freshModel, dst', exc) \<and>
    exc = ExceptionIllegalDataAddr"
  using read_registers_correct [of freshModel FCReadHoldingRegisters 2 "replicate 10 0" noTables "0xffff"] by auto

text \<open>
  C17. Reading \<open>q\<close> coils or discrete inputs from address \<open>a\<close>: inside the table bit \<open>k\<close> of the answer, least
  significant bit first, is the bit at \<open>a + k\<close>, and the bits of the destination after the last one keep
  their value; otherwise the address is illegal.  The model is unchanged.
\<close>

theorem read_bits_correct:
  assumes "dm_ok dm" and "fc = FCReadCoils \<or> fc = FCReadDiscreteInputs"
    and "0 < unat q" and "unat q \<le> 8 * length dst"
  shows "\<exists>dst' exc. readFromModel I dst dm fc a q = Ret (dm, dst', exc) \<and> length dst' = length dst \<and>
    (if unat a + unat q \<le> 2000
     then exc = ExceptionNone \<and> (\<forall>j. j < 8 * length dst \<longrightarrow>
       packed_bit dst' j = (if j < unat q then bits_of fc dm (uint a + int j) else packed_bit dst j))
     else exc = ExceptionIllegalDataAddr)"
  using read_bits [OF assms(1-3) _ assms(4), of a I] read_bits_out [OF assms(1-3) _ assms(4), of a I] assms(4)
  by (cases "unat a + unat q \<le> 2000") (auto simp: packed_bit_fold)

theorem read_bits_correct_witness:
  "\<exists>dst' exc. readFromModel noTables [0xff] freshModel FCReadCoils 1997 3 = Ret (freshModel, dst', exc) \<and>
    exc = ExceptionNone \<and> packed_bit dst' 5"
proof -
  have "packed_bit [0xff] 5" by (simp add: packed_bit_def)
  then show ?thesis
    using read_bits_correct [of freshModel FCReadCoils 3 "[0xff]" noTables 1997] by auto
qed

text \<open>
  C13. A write of \<open>q > 0\<close> registers that ends before register 124 stores exactly the big-endian data at \<open>a\<close>, ...,
  \<open>a + q - 1\<close>, leaves every other table alone, and a read of the same range gives the data back.  Every
  other write is an illegal address.  It changes nothing, so that register 124, which a read reaches, is
  refused, unless the 16-bit end address wraps around to a value below 125: then the registers from \<open>a\<close> to
  the end of the table, register 124 included, are written before the exception.  The data have to cover
  the registers the loop reaches.
\<close>

theorem write_registers_correct:
  assumes "dm_ok dm" and "fc = FCWriteMultipleRegisters \<or> fc = FCWriteSingleRegister \<and> q = 1"
    and "0 < unat q" and "2 * min (unat q) (max 1 (126 - unat a)) \<le> length data"
    and "length dst = 2 * unat q"
  shows "\<exists>dm' exc. writeToModel I dm fc a q data = Ret (dm', exc) \<and> dm_ok dm' \<and>
    (if unat a + unat q < 125
     then exc = ExceptionNone \<and>
       bank_of dm' = (bank_of dm)\<lparr>bHolding := upd_range (holding dm) (uint a) (data_regs data (unat q))\<rparr> \<and>
       readFromModel I dst dm' FCReadHoldingRegisters a q = Ret (dm', take (2 * unat q) data, ExceptionNone)
     else if 65536 \<le> unat a + unat q \<and> unat a + unat q < 65536 + 125
     then exc = ExceptionIllegalDataAddr \<and>
       bank_of dm' = (bank_of dm)\<lparr>bHolding := upd_range (holding dm) (uint a) (data_regs data (125 - unat a))\<rparr>
     else exc = ExceptionIllegalDataAddr \<and> dm' = dm)"
proof -
  consider (inside) "unat a + unat q < 125"
    | (wrap) "65536 \<le> unat a + unat q" "unat a + unat q < 65536 + 125"
    | (out) "\<not> unat a + unat q < 125" "\<not> (65536 \<le> unat a + unat q \<and> unat a + unat q < 65536 + 125)"
    by blast
  then show ?thesis
  proof cases
    case inside
    with assms(4) have data: "2 * unat q \<le> length data" by (simp add: min_def max_def split: if_splits)
    from inside obtain dm' where dm': "writeToModel I dm fc a q data = Ret (dm', ExceptionNone)" "dm_ok dm'"
        "holding dm' = upd_range (holding dm) (uint a) (data_regs data (unat q))"
        "inputs dm' = inputs dm" "coil dm' = coil dm" "discrete dm' = discrete dm"
      using write_registers [OF assms(1,2) _ data] by blast
    have "map (\<lambda>k. regs_of FCReadHoldingRegisters dm' (uint a + int k)) [0..<unat q] = data_regs data (unat q)"
      by (rule nth_equalityI) (auto simp: regs_of_def dm'(3))
    then have "readFromModel I dst dm' FCReadHoldingRegisters a q = Ret (dm', take (2 * unat q) data, ExceptionNone)"
      using read_registers [of dm' FCReadHoldingRegisters q a dst I] dm'(2) inside assms data
      by (simp add: be_bytes_data_regs)
    with dm' inside show ?thesis by (auto simp: bank_of_def)
  next
    case wrap
    then have "2 * max 1 (126 - unat a) \<le> length data"
      using assms(3,4) unat_uint16 [of a] by (simp add: min_def max_def split: if_splits)
    from write_registers_wrap [OF assms(1,2) wrap this] wrap show ?thesis by (fastforce simp: bank_of_def)
  next
    case out
    then have "125 \<le> unat (a + q)" by (auto simp: unat_end)
    with out show ?thesis using write_out [of dm fc a q I data] assms(1,2) by auto
  qed
qed

theorem write_registers_correct_witness:
  "(\<exists>dm' exc. writeToModel noTables freshModel FCWriteMultipleRegisters 122 2 [1, 2, 3, 4] = Ret (dm', exc) \<and>
    exc = ExceptionNone \<and>
    readFromModel noTables [0, 0, 0, 0] dm' FCReadHoldingRegisters 122 2 = Ret (dm', [1, 2, 3, 4], ExceptionNone)) \<and>
   (\<exists>dm' exc. writeToModel noTables freshModel FCWriteMultipleRegisters 123 0xffff [1, 2, 3, 4, 5, 6] = Ret (dm', exc) \<and>
    exc = ExceptionIllegalDataAddr \<and>
    bank_of dm' = (bank_of freshModel)\<lparr>bHolding := upd_range (holding freshModel) 123 [0x0102, 0x0304]\<rparr>)"
proof
  show "\<exists>dm' exc. writeToModel noTables freshModel FCWriteMultipleRegisters 122 2 [1, 2, 3, 4] = Ret (dm', exc) \<and>
      exc = ExceptionNone \<and>
      readFromModel noTables [0, 0, 0, 0] dm' FCReadHoldingRegisters 122 2 = Ret (dm', [1, 2, 3, 4], ExceptionNone)"
    using write_registers_correct [of freshModel FCWriteMultipleRegisters 2 122 "[1, 2, 3, 4]" "[0, 0, 0, 0]" noTables]
    by auto
  have regs: "data_regs [1, 2, 3, 4, 5, 6] 2 = [0x0102, 0x0304]" by (simp add: data_regs_def upt_rec be16_def)
  show "\<exists>dm' exc. writeToModel noTables freshModel FCWriteMultipleRegisters 123 0xffff [1, 2, 3, 4, 5, 6] = Ret (dm', exc) \<and>
      exc = ExceptionIllegalDataAddr \<and>
      bank_of dm' = (bank_of freshModel)\<lparr>bHolding := upd_range (holding freshModel) 123 [0x0102, 0x0304]\<rparr>"
    using write_registers_correct [of freshModel FCWriteMultipleRegisters "0xffff" 123 "[1, 2, 3, 4, 5, 6]"
        "replicate 131070 0" noTables]
    by (auto simp: regs)
qed

text \<open>
  C18. A write of \<open>q > 0\<close> coils inside the table stores bit \<open>k\<close> of the packed data at \<open>a + k\<close> and changes nothing
  else, and a read of the same coils gives the same bits.  Every other write is an illegal address and
  changes nothing, unless the 16-bit end address wraps around to at most 2000: then the coils from \<open>a\<close> to the
  end of the table are written before the exception.  The data have to cover the coils the loop reaches.
\<close>

theorem write_coils_correct:
  assumes "dm_ok dm" and "fc = FCWriteMultipleCoils \<or> fc = FCWriteSingleCoil \<and> q = 1"
    and "0 < unat q" and "min (unat q) (max 1 (2001 - unat a)) \<le> 8 * length data" and "unat q \<le> 8 * length dst"
  shows "\<exists>dm' exc. writeToModel I dm fc a q data = Ret (dm', exc) \<and> dm_ok dm' \<and>
    (if unat a + unat q \<le> 2000
     then exc = ExceptionNone \<and>
       bank_of dm' = (bank_of dm)\<lparr>bCoils := upd_range (coil dm) (uint a) (map (packed_bit data) [0..<unat q])\<rparr> \<and>
       (\<exists>dst'. readFromModel I dst dm' FCReadCoils a q = Ret (dm', dst', ExceptionNone) \<and>
         (\<forall>j. j < unat q \<longrightarrow> packed_bit dst' j = packed_bit data j))
     else if 65536 \<le> unat a + unat q \<and> unat a + unat q \<le> 65536 + 2000
     then exc = ExceptionIllegalDataAddr \<and>
       bank_of dm' = (bank_of dm)\<lparr>bCoils := upd_range (coil dm) (uint a) (map (packed_bit data) [0..<2000 - unat a])\<rparr>
     else exc = ExceptionIllegalDataAddr \<and> dm' = dm)"
proof -
  consider (inside) "unat a + unat q \<le> 2000"
    | (wrap) "65536 \<le> unat a + unat q" "unat a + unat q \<le> 65536 + 2000"
    | (out) "\<not> unat a + unat q \<le> 2000" "\<not> (65536 \<le> unat a + unat q \<and> unat a + unat q \<le> 65536 + 2000)"
    by blast
  then show ?thesis
  proof cases
    case inside
    with assms(4) have data: "unat q \<le> 8 * length data" by (simp add: min_def max_def split: if_splits)
    from inside obtain dm' where dm': "writeToModel I dm fc a q data = Ret (dm', ExceptionNone)" "dm_ok dm'"
        "coil dm' = upd_range (coil dm) (uint a) (map (packed_bit data) [0..<unat q])"
        "holding dm' = holding dm" "inputs dm' = inputs dm" "discrete dm' = discrete dm"
      using write_coils [OF assms(1,2) _ data] by blast
    have "bits_of FCReadCoils dm' (uint a + int j) = packed_bit data j" if "j < unat q" for j
      using that by (simp add: bits_of_def dm'(3))
    then have "\<exists>dst'. readFromModel I dst dm' FCReadCoils a q = Ret (dm', dst', ExceptionNone) \<and>
        (\<forall>j. j < unat q \<longrightarrow> packed_bit dst' j = packed_bit data j)"
      using read_bits [of dm' FCReadCoils q a dst I] dm'(2) inside assms by (simp add: packed_bit_fold)
    with dm' inside show ?thesis by (auto simp: bank_of_def)
  next
    case wrap
    then have "max 1 (2001 - unat a) \<le> 8 * length data"
      using assms(3,4) unat_uint16 [of a] by (simp add: min_def max_def split: if_splits)
    from write_coils_wrap [OF assms(1,2) wrap this] wrap show ?thesis by (fastforce simp: bank_of_def)
  next
    case out
    then have "2000 < unat (a + q)" by (auto simp: unat_end)
    with out show ?thesis using write_out [of dm fc a q I data] assms(1,2) by auto
  qed
qed

theorem write_coils_correct_witness:
  "(\<exists>dm' exc. writeToModel noTables freshModel FCWriteMultipleCoils 1990 10 [0xcd, 0x01] = Ret (dm', exc) \<and>
    exc = ExceptionNone \<and> (\<exists>dst'. readFromModel noTables [0, 0] dm' FCReadCoils 1990 10 = Ret (dm', dst', ExceptionNone))) \<and>
   (\<exists>dm' exc. writeToModel noTables freshModel FCWriteMultipleCoils 1998 0xffff [0xcd] = Ret (dm', exc) \<and>
    exc = ExceptionIllegalDataAddr \<and>
    bank_of dm' = (bank_of freshModel)\<lparr>bCoils := upd_range (coil freshModel) 1998 [True, False]\<rparr>)"
proof
  show "\<exists>dm' exc. writeToModel noTables freshModel FCWriteMultipleCoils 1990 10 [0xcd, 0x01] = Ret (dm', exc) \<and>
      exc = ExceptionNone \<and> (\<exists>dst'. readFromModel noTables [0, 0] dm' FCReadCoils 1990 10 = Ret (dm', dst', ExceptionNone))"
    using write_coils_correct [of freshModel FCWriteMultipleCoils 10 1990 "[0xcd, 0x01]" "[0, 0]" noTables]
    by auto
  have bits: "map (packed_bit [0xcd]) [0..<2] = [True, False]" by (simp add: packed_bit_def upt_rec bit_simps)
  show "\<exists>dm' exc. writeToModel noTables freshModel FCWriteMultipleCoils 1998 0xffff [0xcd] = Ret (dm', exc) \<and>
      exc = ExceptionIllegalDataAddr \<and>
      bank_of dm' = (bank_of freshModel)\<lparr>bCoils := upd_range (coil freshModel) 1998 [True, False]\<rparr>"
    using write_coils_correct [of freshModel FCWriteMultipleCoils "0xffff" 1998 "[0xcd]" "replicate 8192 0" noTables]
    by (auto simp: bits)
qed

end
