(* ===== verification/Put_Response.thy ===== *)
theory Put_Response
  imports Model_Access Tx
begin

text \<open>
  \<open>Request.PutResponse\<close> of \<open>src/tx.go\<close>: the server's side of a request.  The argument
  \<open>data\<close> is the slice up to its capacity, as slicing in Go goes by capacity; its new contents
  are returned, since the registers of a read are assembled in it.
\<close>

section \<open>The operation\<close>

text \<open>The number of bytes the data of the response takes in \<open>data\<close>.\<close>

definition quantityBytes :: "Request \<Rightarrow> uint16" where
  "quantityBytes req =
    (if FC req = FCReadHoldingRegisters \<or> FC req = FCReadInputRegisters then
       if maybeByteCount req \<noteq> 0 then ucast (maybeByteCount req) else maybeValueQuantity req * 2
     else maybeValueQuantity req)"

text \<open>The first switch: the access to the data model.\<close>

definition accessModel :: "'s DataModelImpl \<Rightarrow> Request \<Rightarrow> 's DataModel \<Rightarrow> byte list \<Rightarrow> byte list \<Rightarrow>
    ('s DataModel \<times> byte list \<times> Exception) outcome" where
  "accessModel I req model data readData =
    (let fc = FC req; address = maybeAddr req in
     if fc = FCWriteSingleRegister \<or> fc = FCWriteSingleCoil then
       andThen (PutUint16 [0, 0] 0 (quantityBytes req)) (\<lambda>scratch.
       andThen (writeToModel I model fc address 1 scratch) (\<lambda>(model, exc). Ret (model, readData, exc)))
     else if fc = FCWriteMultipleCoils \<or> fc = FCWriteMultipleRegisters then
       andThen (sub data 0 (uint (maybeByteCount req))) (\<lambda>d.
       andThen (writeToModel I model fc address (maybeValueQuantity req) d) (\<lambda>(model, exc).
         Ret (model, readData, exc)))
     else if fc = FCReadCoils \<or> fc = FCReadDiscreteInputs \<or> fc = FCReadHoldingRegisters \<or>
       fc = FCReadInputRegisters then
       readFromModel I readData model fc address (maybeValueQuantity req)
     else Ret (model, readData, ExceptionIllegalFunction))"

text \<open>The second switch: the response of a request without exception.\<close>

definition putNominal :: "Request \<Rightarrow> byte list \<Rightarrow> byte list \<Rightarrow> txresult" where
  "putNominal req dst readData =
    (let fc = FC req; address = maybeAddr req in
     if fc = FCReadHoldingRegisters then ResponseReadHoldingRegisters dst readData
     else if fc = FCReadCoils then ResponseReadCoils dst readData
     else if fc = FCReadInputRegisters then ResponseReadInputRegisters dst readData
     else if fc = FCReadDiscreteInputs then ResponseReadDiscreteInputs dst readData
     else if fc = FCWriteSingleRegister then ResponseWriteSingleRegister dst address (quantityBytes req)
     else if fc = FCWriteSingleCoil then ResponseWriteSingleCoil dst address (quantityBytes req = 0xff00)
     else if fc = FCWriteMultipleRegisters then
       ResponseWriteMultipleRegisters dst address (quantityBytes req)
     else Panic ''unhandled function code in request.Response()'')"

definition PutResponse :: "'s DataModelImpl \<Rightarrow> Request \<Rightarrow> 's DataModel \<Rightarrow> byte list \<Rightarrow> byte list \<Rightarrow>
    ('s DataModel \<times> byte list \<times> byte list \<times> nat \<times> goerror option) outcome" where
  "PutResponse I req model dst data =
     andThen (sub data 2 (uint (2 + quantityBytes req))) (\<lambda>readData.
     andThen (accessModel I req model data readData) (\<lambda>(model, readData, exc).
       let data = overwrite 2 readData data in
       if exc \<noteq> ExceptionNone then
         if exc > ExceptionMemoryParityError
         then Ret (model, dst, data, 0, Some (ErrUnknownException exc))
         else andThen (Exception_PutResponse exc dst (FC req)) (\<lambda>dst.
           Ret (model, dst, data, 2, Some (ExceptionErr exc)))
       else andThen (putNominal req dst readData) (\<lambda>(dst, n, err).
         Ret (model, dst, data, n, err))))"

section \<open>Reads\<close>

lemma sub_readData:
  assumes "unat q + 2 \<le> length data" and "unat q + 2 < 65536"
  shows "sub data 2 (uint (2 + q :: uint16)) = Ret (take (unat q) (drop 2 data))"
proof -
  have "unat (2 + q) = 2 + unat q" using assms(2) by (simp add: unat_word_ariths)
  then have eq: "uint (2 + q) = int (2 + unat q)" by (simp only: uint_nat)
  have "sub data (int 2) (int (2 + unat q)) = Ret (take (unat q) (drop 2 data))"
    using sub_nat [of 2 "2 + unat q" data] assms(1) by simp
  then show ?thesis by (simp only: eq of_nat_numeral)
qed

lemma overwrite_take:
  "length ys = n \<Longrightarrow> 2 + n \<le> length data \<Longrightarrow> take n (drop 2 (overwrite 2 ys data)) = ys"
  by (simp add: overwrite_def)

definition read_request :: "FunctionCode \<Rightarrow> uint16 \<Rightarrow> uint16 \<Rightarrow> Request" where
  "read_request fc a q = \<lparr>FC = fc, maybeByteCount = 0, maybeAddr = a, maybeValueQuantity = q\<rparr>"

lemma access_registers:
  assumes "dm_ok dm" and fc: "fc = FCReadHoldingRegisters \<or> fc = FCReadInputRegisters"
    and "0 < unat q" and "unat a + unat q \<le> 125" and data: "2 + 2 * unat q \<le> length data"
  defines "regs \<equiv> map (\<lambda>k. regs_of fc dm (uint a + int k)) [0..<unat q]"
  shows "\<exists>rd. sub data 2 (uint (2 + quantityBytes (read_request fc a q))) = Ret rd \<and>
    accessModel I (read_request fc a q) dm data rd = Ret (dm, be_bytes regs, ExceptionNone)"
proof -
  have q2: "unat (q * 2) = 2 * unat q"
    using assms(4) by (simp add: unat_word_ariths)
  have qb: "quantityBytes (read_request fc a q) = q * 2"
    using fc by (auto simp: quantityBytes_def read_request_def)
  let ?rd = "take (2 * unat q) (drop 2 data)"
  have "sub data 2 (uint (2 + q * 2)) = Ret ?rd"
    using sub_readData [of "q * 2" data] data assms(4) by (simp add: q2)
  moreover have "readFromModel I ?rd dm fc a q = Ret (dm, be_bytes regs, ExceptionNone)"
    using read_registers [of dm fc q a ?rd I] assms by (simp add: regs_def)
  then have "accessModel I (read_request fc a q) dm data ?rd = Ret (dm, be_bytes regs, ExceptionNone)"
    using fc by (auto simp: accessModel_def read_request_def)
  ultimately show ?thesis by (simp add: qb)
qed

lemma putresponse_registers:
  assumes "dm_ok dm" and fc: "fc = FCReadHoldingRegisters \<or> fc = FCReadInputRegisters"
    and "0 < unat q" and "unat a + unat q \<le> 125"
    and data: "2 + 2 * unat q \<le> length data" and dst: "2 + 2 * unat q \<le> length dst"
  defines "regs \<equiv> map (\<lambda>k. regs_of fc dm (uint a + int k)) [0..<unat q]"
  shows "PutResponse I (read_request fc a q) dm dst data =
    Ret (dm, fc # word_of_nat (2 * unat q) # be_bytes regs @ drop (2 + 2 * unat q) dst,
      overwrite 2 (be_bytes regs) data, 2 + 2 * unat q, None)"
proof -
  have "length (be_bytes regs) = 2 * unat q" by (simp add: regs_def)
  then have "putNominal (read_request fc a q) dst (be_bytes regs) =
      Ret (fc # word_of_nat (2 * unat q) # be_bytes regs @ drop (2 + 2 * unat q) dst, 2 + 2 * unat q, None)"
    using fc dst by (auto simp: putNominal_def read_request_def tx_unfold tx_simps)
  then show ?thesis
    using access_registers [OF assms(1-5), of I] unfolding regs_def by (auto simp: PutResponse_def)
qed

text \<open>A response that does not fit is refused after the access.\<close>

lemma putresponse_registers_too_large:
  assumes "dm_ok dm" and fc: "fc = FCReadHoldingRegisters \<or> fc = FCReadInputRegisters"
    and "0 < unat q" and "unat a + unat q \<le> 125"
    and data: "2 + 2 * unat q \<le> length data" and dst: "length dst < 2 + 2 * unat q"
  shows "PutResponse I (read_request fc a q) dm dst data =
    Ret (dm, dst, overwrite 2 (be_bytes (map (\<lambda>k. regs_of fc dm (uint a + int k)) [0..<unat q])) data, 0, Some ErrResponseTooLargeTx)"
proof -
  let ?rd = "be_bytes (map (\<lambda>k. regs_of fc dm (uint a + int k)) [0..<unat q])"
  have "putNominal (read_request fc a q) dst ?rd = Ret (dst, 0, Some ErrResponseTooLargeTx)"
    using fc dst by (auto simp: putNominal_def read_request_def tx_unfold tx_simps)
  then show ?thesis
    using access_registers [OF assms(1-5), of I] by (auto simp: PutResponse_def)
qed

text \<open>Bits are packed into the slice of \<open>q\<close> bytes that starts at \<open>data[2]\<close>.\<close>

lemma access_bits:
  assumes "dm_ok dm" and fc: "fc = FCReadCoils \<or> fc = FCReadDiscreteInputs"
    and "0 < unat q" and "unat a + unat q \<le> 2000" and data: "2 + unat q \<le> length data"
  defines "rd \<equiv> fold (storeBit (\<lambda>k. bits_of fc dm (uint a + int k))) [0..<unat q]
    (take (unat q) (drop 2 data))"
  shows "\<exists>d. sub data 2 (uint (2 + quantityBytes (read_request fc a q))) = Ret d \<and>
    accessModel I (read_request fc a q) dm data d = Ret (dm, rd, ExceptionNone)"
proof -
  have qb: "quantityBytes (read_request fc a q) = q"
    using fc by (auto simp: quantityBytes_def read_request_def)
  let ?rd = "take (unat q) (drop 2 data)"
  have "sub data 2 (uint (2 + q)) = Ret ?rd"
    using data assms(4) by (intro sub_readData) auto
  moreover have "readFromModel I ?rd dm fc a q = Ret (dm, rd, ExceptionNone)"
    using read_bits [of dm fc q a ?rd I] assms by (simp add: rd_def)
  then have "accessModel I (read_request fc a q) dm data ?rd = Ret (dm, rd, ExceptionNone)"
    using fc by (auto simp: accessModel_def read_request_def)
  ultimately show ?thesis by (simp add: qb)
qed

lemma putresponse_bits:
  assumes "dm_ok dm" and fc: "fc = FCReadCoils \<or> fc = FCReadDiscreteInputs"
    and "0 < unat q" and "unat a + unat q \<le> 2000" and data: "2 + unat q \<le> length data"
  defines "rd \<equiv> fold (storeBit (\<lambda>k. bits_of fc dm (uint a + int k))) [0..<unat q]
    (take (unat q) (drop 2 data))"
  shows "PutResponse I (read_request fc a q) dm dst data =
    (if 2 + unat q \<le> length dst
     then Ret (dm, fc # word_of_nat (unat q) # rd @ drop (2 + unat q) dst, overwrite 2 rd data, 2 + unat q, None)
     else Ret (dm, dst, overwrite 2 rd data, 0, Some ErrResponseTooLargeTx))"
proof -
  have "length rd = unat q" using data by (simp add: rd_def)
  then have "putNominal (read_request fc a q) dst rd =
      (if 2 + unat q \<le> length dst
       then Ret (fc # word_of_nat (unat q) # rd @ drop (2 + unat q) dst, 2 + unat q, None)
       else Ret (dst, 0, Some ErrResponseTooLargeTx))"
    using fc by (auto simp: putNominal_def read_request_def tx_unfold tx_simps)
  then show ?thesis
    using access_bits [OF assms(1-5), of I] unfolding rd_def by (auto simp: PutResponse_def)
qed

text \<open>
  What the client makes of data of any length: the byte count of the header is the length modulo 256, so
  that the packet the client infers ends before the data do when there are more than 255 bytes.
\<close>

lemma receive_data:
  assumes "fc = FCReadCoils \<or> fc = FCReadDiscreteInputs"
  shows "InferResponsePacketLength (fc # word_of_nat (length d) # xs) = (fc, word_of_nat (2 + length d mod 256), None)"
    and "ReceiveDataResponse (fc # word_of_nat (length d) # d) = (d, None)"
    and "ReceiveDataResponse (fc # word_of_nat (length d) # take (length d mod 256) d) = (take (length d mod 256) d, None)"
proof -
  have "(word_of_nat (length d) :: byte) = word_of_nat (length d mod 256)"
    by (rule word_unat_eq_iff [THEN iffD2]) (simp add: unat_of_nat)
  moreover have "length d mod 256 < 256" by simp
  ultimately show "InferResponsePacketLength (fc # word_of_nat (length d) # xs) =
      (fc, word_of_nat (2 + length d mod 256), None)"
    using InferResponse_data [of fc "take (length d mod 256) d" xs] assms by auto
qed (use assms in \<open>auto simp: ReceiveDataResponse_def unat_of_nat\<close>)

text \<open>An exception of the access is answered by the two bytes of the exception response.\<close>

lemma putresponse_exception:
  assumes "sub data 2 (uint (2 + quantityBytes req)) = Ret rd"
    and "accessModel I req dm data rd = Ret (dm', rd', e)"
    and "e \<noteq> ExceptionNone" and "e \<le> ExceptionMemoryParityError" and "2 \<le> length dst"
  shows "PutResponse I req dm dst data =
    Ret (dm', dst[0 := FC req OR 0x80, 1 := e], overwrite 2 rd' data, 2, Some (ExceptionErr e))"
  using assms leD [OF assms(4)] by (simp add: PutResponse_def go_simps Let_def)

text \<open>
  The slice a read needs: twice the quantity for registers, in 16-bit arithmetic, and the quantity itself
  for bits.
\<close>

lemma quantityBytes_read:
  assumes "fc = FCReadHoldingRegisters \<or> fc = FCReadInputRegisters \<or> fc = FCReadCoils \<or> fc = FCReadDiscreteInputs"
  shows "unat (quantityBytes (read_request fc a q)) =
    (if fc = FCReadCoils \<or> fc = FCReadDiscreteInputs then unat q else 2 * unat q mod 65536)"
  using assms by (auto simp: quantityBytes_def read_request_def unat_word_ariths mult.commute)

lemma even_double_mod: "even (2 * n mod 65536 :: nat)"
  by (simp add: dvd_mod)

lemma wrapped_slice:
  fixes a q :: uint16
  assumes "65536 < unat a + unat q"
  shows "2 * (125 - unat a) \<le> 2 * unat q mod 65536"
proof (cases "unat a < 125")
  case True
  then have "2 * unat q = (2 * unat q - 65536) + 65536" and "2 * unat q - 65536 < 65536"
    using assms unat_uint16 [of q] by linarith+
  then have "2 * unat q mod 65536 = 2 * unat q - 65536" by (metis mod_add_self2 mod_less)
  with True assms show ?thesis by linarith
qed simp

text \<open>A read past the end of its table, for every quantity whose slice can be taken.\<close>

lemma read_out:
  assumes "dm_ok dm" and "0 < unat q"
    and "fc = FCReadHoldingRegisters \<or> fc = FCReadInputRegisters \<or> fc = FCReadCoils \<or> fc = FCReadDiscreteInputs"
    and "if fc = FCReadCoils \<or> fc = FCReadDiscreteInputs
      then 2000 < unat a + unat q \<and> length rd = unat q
      else 125 < unat a + unat q \<and> length rd = 2 * unat q mod 65536"
  shows "\<exists>rd'. readFromModel I rd dm fc a q = Ret (dm, rd', ExceptionIllegalDataAddr) \<and> length rd' = length rd"
proof (cases "fc = FCReadCoils \<or> fc = FCReadDiscreteInputs")
  case True
  with assms(4) show ?thesis by (intro read_bits_out [OF assms(1) True assms(2)]) auto
next
  case False
  with assms(3,4) have fc: "fc = FCReadHoldingRegisters \<or> fc = FCReadInputRegisters"
    and len: "length rd = 2 * unat q mod 65536" and "125 < unat a + unat q" by auto
  moreover have "even (length rd)" unfolding len by (rule even_double_mod)
  moreover have "2 * (125 - unat a) \<le> length rd" if "65536 < unat a + unat q"
    unfolding len by (rule wrapped_slice [OF that])
  ultimately show ?thesis using read_registers_out [OF assms(1) fc assms(2), of a rd I] by blast
qed

lemma putresponse_read_out:
  assumes "dm_ok dm" and "0 < unat q"
    and fc: "fc = FCReadHoldingRegisters \<or> fc = FCReadInputRegisters \<or> fc = FCReadCoils \<or> fc = FCReadDiscreteInputs"
    and n: "if fc = FCReadCoils \<or> fc = FCReadDiscreteInputs then 2000 < unat a + unat q \<and> n = unat q
      else 125 < unat a + unat q \<and> n = 2 * unat q mod 65536"
    and "2 + n \<le> length data" and "2 + n < 65536" and dst: "2 \<le> length dst"
  shows "\<exists>data'. PutResponse I (read_request fc a q) dm dst data =
    Ret (dm, dst[0 := fc OR 0x80, 1 := ExceptionIllegalDataAddr], data', 2,
      Some (ExceptionErr ExceptionIllegalDataAddr)) \<and> length data' = length data"
proof -
  let ?q = "quantityBytes (read_request fc a q)" and ?rd = "take n (drop 2 data)"
  have "unat ?q = n" using quantityBytes_read [OF fc, of a q] n by (simp split: if_splits)
  then have sub: "sub data 2 (uint (2 + ?q)) = Ret ?rd"
    using sub_readData [of ?q data] assms(5,6) by (simp add: add.commute)
  have len: "length ?rd = n" using assms(5) by simp
  obtain rd' where rd': "readFromModel I ?rd dm fc a q = Ret (dm, rd', ExceptionIllegalDataAddr)" "length rd' = n"
    using read_out [OF assms(1,2) fc, of a ?rd I] n unfolding len by auto
  have "accessModel I (read_request fc a q) dm data ?rd = Ret (dm, rd', ExceptionIllegalDataAddr)"
    using fc rd'(1) by (auto simp: accessModel_def read_request_def)
  then have "PutResponse I (read_request fc a q) dm dst data =
      Ret (dm, dst[0 := fc OR 0x80, 1 := ExceptionIllegalDataAddr], overwrite 2 rd' data, 2,
        Some (ExceptionErr ExceptionIllegalDataAddr))"
    using putresponse_exception [OF sub _ _ _ dst, of I dm dm rd' ExceptionIllegalDataAddr]
    by (simp add: read_request_def)
  then show ?thesis using rd'(2) assms(5) by simp
qed

lemma putresponse_registers_out:
  assumes "dm_ok dm" and fc: "fc = FCReadHoldingRegisters \<or> fc = FCReadInputRegisters"
    and "0 < unat q" and "125 < unat a + unat q" and "unat q < 32767"
    and data: "2 + 2 * unat q \<le> length data" and dst: "2 \<le> length dst"
  shows "\<exists>data'. PutResponse I (read_request fc a q) dm dst data =
    Ret (dm, dst[0 := fc OR 0x80, 1 := ExceptionIllegalDataAddr], data', 2,
      Some (ExceptionErr ExceptionIllegalDataAddr)) \<and> length data' = length data"
  using putresponse_read_out [OF assms(1,3) _ _ _ _ dst, of fc a "2 * unat q" data I] assms by auto

section \<open>Writes\<close>

definition write_request :: "FunctionCode \<Rightarrow> uint8 \<Rightarrow> uint16 \<Rightarrow> uint16 \<Rightarrow> Request" where
  "write_request fc n a v = \<lparr>FC = fc, maybeByteCount = n, maybeAddr = a, maybeValueQuantity = v\<rparr>"

lemma quantityBytes_write [simp]:
  "fc \<noteq> FCReadHoldingRegisters \<Longrightarrow> fc \<noteq> FCReadInputRegisters \<Longrightarrow>
    quantityBytes (write_request fc n a v) = v"
  by (simp add: quantityBytes_def write_request_def)

lemma putresponse_write_registers:
  assumes "dm_ok dm" and "unat a + unat q < 125" and "2 * unat q \<le> unat n"
    and "unat n \<le> length data" and "2 + unat q \<le> length data" and "5 \<le> length dst"
  shows "\<exists>dm'. PutResponse I (write_request FCWriteMultipleRegisters n a q) dm dst data =
      Ret (dm', [FCWriteMultipleRegisters, hi8 a, lo8 a, hi8 q, lo8 q] @ drop 5 dst, data, 5, None) \<and>
    dm_ok dm' \<and> holding dm' = upd_range (holding dm) (uint a) (data_regs data (unat q)) \<and>
    inputs dm' = inputs dm \<and> coil dm' = coil dm \<and> discrete dm' = discrete dm"
proof -
  let ?req = "write_request FCWriteMultipleRegisters n a q" and ?d = "take (unat n) data"
  have regs: "data_regs ?d (unat q) = data_regs data (unat q)"
    using assms(3) by (simp add: data_regs_def)
  obtain dm' where dm': "writeToModel I dm FCWriteMultipleRegisters a q ?d = Ret (dm', ExceptionNone)"
    "dm_ok dm'" "holding dm' = upd_range (holding dm) (uint a) (data_regs data (unat q))"
    "inputs dm' = inputs dm" "coil dm' = coil dm" "discrete dm' = discrete dm"
    using write_registers [of dm FCWriteMultipleRegisters q a ?d I] assms regs by auto
  have "sub data (int 0) (int (unat n)) = Ret ?d" using sub_nat [of 0 "unat n" data] assms(4) by simp
  then have "sub data 0 (uint n) = Ret ?d" by simp
  then have "accessModel I ?req dm data rd = Ret (dm', rd, ExceptionNone)" for rd
    using dm'(1) by (simp add: accessModel_def write_request_def)
  moreover have "sub data 2 (uint (2 + q)) = Ret (take (unat q) (drop 2 data))"
    using assms(2,5) by (intro sub_readData) auto
  ultimately show ?thesis
    using dm' assms(5,6)
    by (simp add: PutResponse_def putNominal_def overwrite_same)
      (simp add: write_request_def quantityBytes_def tx_unfold tx_simps)
qed

lemma putresponse_write_register:
  assumes "dm_ok dm" and "unat a < 124" and "2 + unat v \<le> length data" and "unat v + 2 < 65536"
    and "5 \<le> length dst"
  shows "\<exists>dm'. PutResponse I (write_request FCWriteSingleRegister 0 a v) dm dst data =
      Ret (dm', [FCWriteSingleRegister, hi8 a, lo8 a, hi8 v, lo8 v] @ drop 5 dst, data, 5, None) \<and>
    dm_ok dm' \<and> holding dm' = (holding dm)(uint a := v) \<and>
    inputs dm' = inputs dm \<and> coil dm' = coil dm \<and> discrete dm' = discrete dm"
proof -
  let ?req = "write_request FCWriteSingleRegister 0 a v"
  have "data_regs [hi8 v, lo8 v] (unat (1 :: uint16)) = [v]" by (simp add: data_regs_def)
  then obtain dm' where dm': "writeToModel I dm FCWriteSingleRegister a 1 [hi8 v, lo8 v] = Ret (dm', ExceptionNone)"
    "dm_ok dm'" "holding dm' = (holding dm)(uint a := v)"
    "inputs dm' = inputs dm" "coil dm' = coil dm" "discrete dm' = discrete dm"
    using write_registers [of dm FCWriteSingleRegister 1 a "[hi8 v, lo8 v]" I] assms(1,2)
    by (auto simp: upd_range_Cons)
  then have "accessModel I ?req dm data rd = Ret (dm', rd, ExceptionNone)" for rd
    by (simp add: accessModel_def PutUint16_def write_request_def quantityBytes_def)
  moreover have "sub data 2 (uint (2 + v)) = Ret (take (unat v) (drop 2 data))"
    using assms(3,4) by (intro sub_readData) auto
  ultimately show ?thesis
    using dm' assms(3,5)
    by (simp add: PutResponse_def putNominal_def overwrite_same)
      (simp add: write_request_def quantityBytes_def tx_unfold tx_simps)
qed

lemma putresponse_write_coil:
  assumes "dm_ok dm" and "unat a < 2000" and "2 + unat v \<le> length data" and "unat v + 2 < 65536"
    and "5 \<le> length dst"
  shows "\<exists>dm'. PutResponse I (write_request FCWriteSingleCoil 0 a v) dm dst data =
      Ret (dm', [FCWriteSingleCoil, hi8 a, lo8 a, (if v = 0xff00 then 0xff else 0), 0] @ drop 5 dst,
        data, 5, None) \<and>
    dm_ok dm' \<and> coil dm' = (coil dm)(uint a := bit v 8) \<and>
    holding dm' = holding dm \<and> inputs dm' = inputs dm \<and> discrete dm' = discrete dm"
proof -
  let ?req = "write_request FCWriteSingleCoil 0 a v"
  have "map (packed_bit [hi8 v, lo8 v]) [0..<unat (1 :: uint16)] = [bit v 8]"
    by (simp add: packed_bit_def hi8_def bit_simps)
  then obtain dm' where dm': "writeToModel I dm FCWriteSingleCoil a 1 [hi8 v, lo8 v] = Ret (dm', ExceptionNone)"
    "dm_ok dm'" "coil dm' = (coil dm)(uint a := bit v 8)"
    "holding dm' = holding dm" "inputs dm' = inputs dm" "discrete dm' = discrete dm"
    using write_coils [of dm FCWriteSingleCoil 1 a "[hi8 v, lo8 v]" I] assms(1,2)
    by (auto simp: upd_range_Cons)
  then have "accessModel I ?req dm data rd = Ret (dm', rd, ExceptionNone)" for rd
    by (simp add: accessModel_def PutUint16_def write_request_def quantityBytes_def)
  moreover have "sub data 2 (uint (2 + v)) = Ret (take (unat v) (drop 2 data))"
    using assms(3,4) by (intro sub_readData) auto
  moreover have "hi8 0xff00 = 0xff" "lo8 0xff00 = 0" "hi8 0 = 0" "lo8 0 = 0"
    by (simp_all add: hi8_def lo8_def)
  ultimately show ?thesis
    using dm' assms(3,5)
    by (simp add: PutResponse_def putNominal_def overwrite_same)
      (simp add: write_request_def quantityBytes_def tx_unfold tx_simps)
qed

text \<open>A single write outside the addresses the check admits is answered by the exception.\<close>

lemma write_single_out:
  assumes "dm_ok dm" and fc: "fc = FCWriteSingleRegister \<and> 124 \<le> unat a \<or> fc = FCWriteSingleCoil \<and> 2000 \<le> unat a"
  shows "\<exists>dm'. writeToModel I dm fc a 1 [x, y] = Ret (dm', ExceptionIllegalDataAddr) \<and> dm_ok dm' \<and>
    bank_of dm' = bank_of dm"
proof (cases "unat a = 65535")
  case True
  with fc assms(1) write_registers_wrap [of dm fc 1 a "[x, y]" I] write_coils_wrap [of dm fc 1 a "[x, y]" I]
  show ?thesis by (fastforce simp: bank_of_def data_regs_def)
next
  case False
  with unat_uint16 [of a] have "unat (a + 1) = unat a + 1" by (simp add: unat_end)
  with fc assms(1) write_out [of dm fc a 1 I "[x, y]"] show ?thesis by auto
qed

lemma putresponse_write_single_out:
  assumes "dm_ok dm" and fc: "fc = FCWriteSingleRegister \<and> 124 \<le> unat a \<or> fc = FCWriteSingleCoil \<and> 2000 \<le> unat a"
    and "2 + unat v \<le> length data" and "unat v + 2 < 65536" and dst: "2 \<le> length dst"
  shows "\<exists>dm'. PutResponse I (write_request fc 0 a v) dm dst data =
      Ret (dm', dst[0 := fc OR 0x80, 1 := ExceptionIllegalDataAddr], data, 2,
        Some (ExceptionErr ExceptionIllegalDataAddr)) \<and> dm_ok dm' \<and> bank_of dm' = bank_of dm"
proof -
  let ?req = "write_request fc 0 a v" and ?rd = "take (unat v) (drop 2 data)"
  obtain dm' where dm': "writeToModel I dm fc a 1 [hi8 v, lo8 v] = Ret (dm', ExceptionIllegalDataAddr)"
    "dm_ok dm'" "bank_of dm' = bank_of dm"
    using write_single_out [OF assms(1) fc] by blast
  have sub: "sub data 2 (uint (2 + quantityBytes ?req)) = Ret ?rd"
    using fc sub_readData [of v data] assms(3,4) by auto
  have "accessModel I ?req dm data ?rd = Ret (dm', ?rd, ExceptionIllegalDataAddr)"
    using fc dm'(1) by (auto simp: accessModel_def PutUint16_def write_request_def quantityBytes_def)
  then have "PutResponse I ?req dm dst data = Ret (dm', dst[0 := fc OR 0x80, 1 := ExceptionIllegalDataAddr],
      overwrite 2 ?rd data, 2, Some (ExceptionErr ExceptionIllegalDataAddr))"
    using putresponse_exception [OF sub _ _ _ dst, of I dm dm' ?rd ExceptionIllegalDataAddr]
    by (simp add: write_request_def)
  with dm' assms(3) show ?thesis by (simp add: overwrite_same)
qed

section \<open>Requests that panic\<close>

text \<open>
  The slice of the response data is taken for every function code, with the value of a write
  request as its length.
\<close>

lemma putresponse_slice_panics:
  assumes "length data < 2 + unat (quantityBytes req) \<or> 65536 \<le> 2 + unat (quantityBytes req)"
  shows "PutResponse I req dm dst data = Panic slice_bounds"
proof -
  let ?q = "quantityBytes req"
  have "unat (2 + ?q) = (2 + unat ?q) mod 65536" by (simp add: unat_word_ariths)
  moreover have "unat ?q < 65536" using unsigned_less [of ?q] by simp
  ultimately have "unat (2 + ?q) < 2 \<or> length data < unat (2 + ?q)"
    using assms by (cases "2 + unat ?q < 65536") (auto simp: mod_if)
  then have "uint (2 + ?q) < 2 \<or> int (length data) < uint (2 + ?q)"
    by (metis of_nat_less_iff of_nat_numeral uint_nat)
  then show ?thesis by (auto simp: PutResponse_def sub_def)
qed

text \<open>A multiple-coil write reaches the model and then the panic of the second switch.\<close>

lemma putresponse_write_coils_panics:
  assumes "dm_ok dm" and "unat a + unat q \<le> 2000" and "unat q \<le> 8 * unat n"
    and "unat n \<le> length data" and "2 + unat q \<le> length data"
  shows "PutResponse I (write_request FCWriteMultipleCoils n a q) dm dst data =
    Panic ''unhandled function code in request.Response()''"
proof -
  let ?req = "write_request FCWriteMultipleCoils n a q" and ?d = "take (unat n) data"
  obtain dm' where dm': "writeToModel I dm FCWriteMultipleCoils a q ?d = Ret (dm', ExceptionNone)"
    using write_coils [of dm FCWriteMultipleCoils q a ?d I] assms by auto
  have "sub data (int 0) (int (unat n)) = Ret ?d" using sub_nat [of 0 "unat n" data] assms(4) by simp
  then have "sub data 0 (uint n) = Ret ?d" by simp
  then have "accessModel I ?req dm data rd = Ret (dm', rd, ExceptionNone)" for rd
    using dm' by (simp add: accessModel_def write_request_def)
  moreover have "sub data 2 (uint (2 + q)) = Ret (take (unat q) (drop 2 data))"
    using assms(2,5) by (intro sub_readData) auto
  ultimately show ?thesis
    by (simp add: PutResponse_def putNominal_def) (simp add: write_request_def)
qed

section \<open>Properties\<close>

text \<open>The marshalled read request of a function code.\<close>

definition requestRegisters :: "FunctionCode \<Rightarrow> byte list \<Rightarrow> uint16 \<Rightarrow> uint16 \<Rightarrow> txresult" where
  "requestRegisters fc = (if fc = FCReadHoldingRegisters then RequestReadHoldingRegisters else RequestReadInputRegisters)"

definition requestBits :: "FunctionCode \<Rightarrow> byte list \<Rightarrow> uint16 \<Rightarrow> uint16 \<Rightarrow> txresult" where
  "requestBits fc = (if fc = FCReadCoils then RequestReadCoils else RequestReadDiscreteInputs)"

lemma request_read_pdu:
  assumes "fc = FCReadHoldingRegisters \<or> fc = FCReadInputRegisters" and "0 < unat q" and "unat q \<le> 125" and "5 \<le> length tx"
  shows "requestRegisters fc tx a q = Ret ([fc, hi8 a, lo8 a, hi8 q, lo8 q] @ drop 5 tx, 5, None)"
proof -
  have "\<not> q > 125" "q \<noteq> 0" using assms(2,3) by (auto simp: word_less_nat_alt)
  then show ?thesis using assms(1,4) by (auto simp: requestRegisters_def tx_unfold tx_simps)
qed

lemma request_bits_pdu:
  assumes "fc = FCReadCoils \<or> fc = FCReadDiscreteInputs" and "0 < unat q" and "unat q \<le> 2000" and "5 \<le> length tx"
  shows "requestBits fc tx a q = Ret ([fc, hi8 a, lo8 a, hi8 q, lo8 q] @ drop 5 tx, 5, None)"
proof -
  have "\<not> q > 2000" "q \<noteq> 0" using assms(2,3) by (auto simp: word_less_nat_alt)
  then show ?thesis using assms(1,4) by (auto simp: requestBits_def tx_unfold tx_simps)
qed

text \<open>
  C6. A whole register read, from the client's arguments to the client's result: the request the client
  marshals is decoded by the server, answered from the model without changing it, the length of the
  response is inferred from its first bytes, and the data the client extracts are the registers at the
  requested addresses.  The server needs two bytes more than the data in the request's buffer.
\<close>

theorem read_registers_exchange:
  assumes "dm_ok dm" and fc: "fc = FCReadHoldingRegisters \<or> fc = FCReadInputRegisters"
    and "0 < unat q" and "unat a + unat q \<le> 125" and "5 \<le> length tx"
    and "2 * unat q \<le> length slack + 3" and dst: "2 + 2 * unat q \<le> length dst"
  shows "\<exists>pdu req dst' data'. requestRegisters fc tx a q = Ret (pdu @ drop 5 tx, length pdu, None) \<and>
    DecodeRequest pdu = Ret (req, 0, None) \<and>
    PutResponse I req dm dst (pdu @ slack) = Ret (dm, dst', data', 2 + 2 * unat q, None) \<and>
    InferResponsePacketLength dst' = (fc, word_of_nat (2 + 2 * unat q), None) \<and>
    ReceiveDataResponse (take (2 + 2 * unat q) dst') =
      (be_bytes (map (\<lambda>k. regs_of fc dm (uint a + int k)) [0..<unat q]), None)"
proof -
  let ?pdu = "[fc, hi8 a, lo8 a, hi8 q, lo8 q]"
  let ?regs = "map (\<lambda>k. regs_of fc dm (uint a + int k)) [0..<unat q]"
  let ?dst = "fc # word_of_nat (2 * unat q) # be_bytes ?regs @ drop (2 + 2 * unat q) dst"
  have "requestRegisters fc tx a q = Ret (?pdu @ drop 5 tx, length ?pdu, None)"
    using request_read_pdu [OF fc assms(3) _ assms(5), of a] assms(4) by simp
  moreover have "DecodeRequest ?pdu = Ret (read_request fc a q, 0, None)"
    using DecodeRequest_simple [of fc a q "[]"] fc by (auto simp: read_request_def)
  moreover have "PutResponse I (read_request fc a q) dm dst (?pdu @ slack) =
      Ret (dm, ?dst, overwrite 2 (be_bytes ?regs) (?pdu @ slack), 2 + 2 * unat q, None)"
    using putresponse_registers [OF assms(1-4) _ dst] assms(6) by simp
  moreover have "InferResponsePacketLength ?dst = (fc, word_of_nat (2 + 2 * unat q), None)"
    using InferResponse_data [of fc "be_bytes ?regs"] fc assms(4) by auto
  moreover have "ReceiveDataResponse (take (2 + 2 * unat q) ?dst) = (be_bytes ?regs, None)"
    using ReceiveData_ok [of fc "be_bytes ?regs"] fc assms(4) by auto
  ultimately show ?thesis by blast
qed

theorem read_registers_exchange_witness:
  "\<exists>pdu req dst' data'. requestRegisters FCReadHoldingRegisters (replicate 255 0) 0 125 =
      Ret (pdu @ drop 5 (replicate 255 0), length pdu, None) \<and>
    DecodeRequest pdu = Ret (req, 0, None) \<and>
    PutResponse noTables req freshModel (replicate 258 0) (pdu @ replicate 247 0) = Ret (freshModel, dst', data', 252, None)"
  using read_registers_exchange [of freshModel FCReadHoldingRegisters 125 0 "replicate 255 0" "replicate 247 0"
      "replicate 258 0" noTables]
  by (simp del: DataModel.distinct) blast

text \<open>
  C15. A whole coil or discrete input read of any quantity \<open>q > 0\<close> inside the table.  The server takes a slice of \<open>q\<close>
  bytes for \<open>q\<close> bits: it panics when the request's buffer is shorter than \<open>q + 2\<close>, and refuses the response
  when \<open>dst\<close> is.  Otherwise it answers \<open>q\<close> data bytes, whose bits 0 to \<open>q - 1\<close>, least significant bit of the
  first byte first, are the bits of the table at the requested addresses.  The byte count of the header
  is \<open>q\<close> modulo 256: for less than 256 bits the client infers the length sent and extracts all the data,
  and for more it infers and extracts \<open>q mod 256\<close> bytes of them only.
\<close>

theorem read_bits_exchange:
  assumes "dm_ok dm" and fc: "fc = FCReadCoils \<or> fc = FCReadDiscreteInputs"
    and "0 < unat q" and "unat a + unat q \<le> 2000" and "5 \<le> length tx"
  shows "\<exists>pdu req. requestBits fc tx a q = Ret (pdu @ drop 5 tx, length pdu, None) \<and>
    DecodeRequest pdu = Ret (req, 0, None) \<and>
    (if length slack + 3 < unat q then PutResponse I req dm dst (pdu @ slack) = Panic slice_bounds
     else if length dst < 2 + unat q
     then \<exists>data'. PutResponse I req dm dst (pdu @ slack) = Ret (dm, dst, data', 0, Some ErrResponseTooLargeTx)
     else \<exists>dst' data' bits. PutResponse I req dm dst (pdu @ slack) = Ret (dm, dst', data', 2 + unat q, None) \<and>
       length bits = unat q \<and> (\<forall>j. j < unat q \<longrightarrow> packed_bit bits j = bits_of fc dm (uint a + int j)) \<and>
       ReceiveDataResponse (take (2 + unat q) dst') = (bits, None) \<and>
       InferResponsePacketLength dst' = (fc, word_of_nat (2 + unat q mod 256), None) \<and>
       ReceiveDataResponse (take (2 + unat q mod 256) dst') = (take (unat q mod 256) bits, None))"
proof -
  let ?pdu = "[fc, hi8 a, lo8 a, hi8 q, lo8 q]" and ?req = "read_request fc a q"
  define rd where "rd = fold (storeBit (\<lambda>k. bits_of fc dm (uint a + int k))) [0..<unat q]
    (take (unat q) (drop 2 (?pdu @ slack)))"
  let ?dst = "fc # word_of_nat (unat q) # rd @ drop (2 + unat q) dst"
  have "requestBits fc tx a q = Ret (?pdu @ drop 5 tx, length ?pdu, None)"
    using request_bits_pdu [OF fc assms(3) _ assms(5), of a] assms(4) by simp
  moreover have "DecodeRequest ?pdu = Ret (?req, 0, None)"
    using DecodeRequest_simple [of fc a q "[]"] fc by (auto simp: read_request_def)
  moreover have "PutResponse I ?req dm dst (?pdu @ slack) = Panic slice_bounds" if "length slack + 3 < unat q"
    using that fc by (intro putresponse_slice_panics) (auto simp: quantityBytes_read)
  moreover have "PutResponse I ?req dm dst (?pdu @ slack) =
      (if 2 + unat q \<le> length dst then Ret (dm, ?dst, overwrite 2 rd (?pdu @ slack), 2 + unat q, None)
       else Ret (dm, dst, overwrite 2 rd (?pdu @ slack), 0, Some ErrResponseTooLargeTx))"
    if "\<not> length slack + 3 < unat q"
    using putresponse_bits [OF assms(1-4), of "?pdu @ slack" I dst] that unfolding rd_def [symmetric] by simp
  moreover have "length rd = unat q" "\<forall>j. j < unat q \<longrightarrow> packed_bit rd j = bits_of fc dm (uint a + int j)"
    if "\<not> length slack + 3 < unat q"
    using that by (simp_all add: rd_def packed_bit_fold)
  moreover have "take (2 + unat q) ?dst = fc # word_of_nat (unat q) # rd"
    "take (2 + unat q mod 256) ?dst = fc # word_of_nat (unat q) # take (unat q mod 256) rd"
    if "length rd = unat q"
    using that by simp_all
  moreover have "InferResponsePacketLength ?dst = (fc, word_of_nat (2 + unat q mod 256), None)"
    "ReceiveDataResponse (fc # word_of_nat (unat q) # rd) = (rd, None)"
    "ReceiveDataResponse (fc # word_of_nat (unat q) # take (unat q mod 256) rd) = (take (unat q mod 256) rd, None)"
    if "length rd = unat q"
    using receive_data [OF fc, of rd, unfolded that] by simp_all
  ultimately show ?thesis
    by (intro exI [of _ ?pdu] exI [of _ ?req]) (simp add: not_less)
qed

theorem read_bits_exchange_witness:
  "\<exists>pdu req. requestBits FCReadCoils (replicate 10 0) 1992 8 =
      Ret (pdu @ drop 5 (replicate 10 0), length pdu, None) \<and> DecodeRequest pdu = Ret (req, 0, None) \<and>
    (\<exists>dst' data'. PutResponse noTables req freshModel (replicate 20 0) (pdu @ replicate 10 0) =
      Ret (freshModel, dst', data', 10, None))"
  using read_bits_exchange [of freshModel FCReadCoils 8 1992 "replicate 10 0" "replicate 10 0" noTables "replicate 20 0"]
  by (simp del: DataModel.distinct) blast

text \<open>
  C7. A whole multiple-register write: the request the client marshals is decoded by the server, which stores
  exactly the client's registers at the requested addresses, changes nothing else and echoes address and
  quantity.
\<close>

theorem write_registers_exchange:
  assumes "dm_ok dm" and "0 < length rs" and "length rs \<le> 123" and "unat a + length rs < 125"
    and "6 + 2 * length rs \<le> length tx" and "0 < length slack" and "5 \<le> length dst"
  shows "\<exists>pdu tx' req dm' dst' data'. RequestWriteMultipleRegisters tx a rs = Ret (pdu @ tx', length pdu, None) \<and>
    DecodeRequest pdu = Ret (req, 6, None) \<and>
    PutResponse I req dm dst (drop 6 pdu @ slack) = Ret (dm', dst', data', 5, None) \<and> dm_ok dm' \<and>
    bank_of dm' = (bank_of dm)\<lparr>bHolding := upd_range (holding dm) (uint a) rs\<rparr> \<and>
    take 5 dst' = [FCWriteMultipleRegisters, hi8 a, lo8 a, hi8 (word_of_nat (length rs)), lo8 (word_of_nat (length rs))]"
proof -
  let ?q = "word_of_nat (length rs) :: uint16" and ?n = "word_of_nat (2 * length rs) :: byte"
  let ?pdu = "[FCWriteMultipleRegisters, hi8 a, lo8 a, hi8 ?q, lo8 ?q, ?n] @ be_bytes rs"
  have q: "unat ?q = length rs" using assms(3) by (simp add: unat_of_nat)
  have n: "unat ?n = 2 * length rs" using assms(3) unat_of_nat [of "2 * length rs", where 'a = 8] by simp
  let ?dst = "[FCWriteMultipleRegisters, hi8 a, lo8 a, hi8 ?q, lo8 ?q] @ drop 5 dst"
  obtain dm' where dm': "PutResponse I (write_request FCWriteMultipleRegisters ?n a ?q) dm dst (drop 6 ?pdu @ slack) =
      Ret (dm', ?dst, drop 6 ?pdu @ slack, 5, None)" "dm_ok dm'"
      "bank_of dm' = (bank_of dm)\<lparr>bHolding := upd_range (holding dm) (uint a) rs\<rparr>"
    using putresponse_write_registers [of dm a ?q ?n "drop 6 ?pdu @ slack" dst I, unfolded q n] assms
    by (auto simp: bank_of_def data_regs_be_bytes)
  have "RequestWriteMultipleRegisters tx a rs = Ret (?pdu @ drop (6 + 2 * length rs) tx, length ?pdu, None)"
    using assms(2,3,5) by (simp add: tx_simps)
  moreover have "DecodeRequest ?pdu = Ret (write_request FCWriteMultipleRegisters ?n a ?q, 6, None)"
    using DecodeRequest_multiple [of FCWriteMultipleRegisters "be_bytes rs" a ?q "[]"] assms(2,3)
    by (simp add: write_request_def)
  moreover have "take 5 ?dst = [FCWriteMultipleRegisters, hi8 a, lo8 a, hi8 ?q, lo8 ?q]" by simp
  ultimately show ?thesis using dm' by blast
qed

theorem write_registers_exchange_witness:
  "\<exists>pdu tx' req dm' dst' data'. RequestWriteMultipleRegisters (replicate 20 0) 7 [0x1234, 0xabcd] =
      Ret (pdu @ tx', length pdu, None) \<and> DecodeRequest pdu = Ret (req, 6, None) \<and>
    PutResponse noTables req freshModel (replicate 20 0) (drop 6 pdu @ [0]) = Ret (dm', dst', data', 5, None) \<and>
    bank_of dm' = (bank_of freshModel)\<lparr>bHolding := upd_range (holding freshModel) 7 [0x1234, 0xabcd]\<rparr>"
  using write_registers_exchange [of freshModel "[0x1234, 0xabcd]" 7 "replicate 20 0" "[0]" "replicate 20 0" noTables]
  by (simp del: DataModel.distinct) blast

text \<open>
  C21. A single write of a value that is at most the length of the request's buffer less two.  A register
  write below address 124 stores the value and echoes address and value.  A coil write below address 2000
  stores bit 8 of the value and answers the address with ON for the value 0xff00 and OFF for every other
  value, so that the response is the echo of the request for 0 and 0xff00 only.  Nothing else in the
  model changes.  At any other address, register 124 included, the answer is the exception for an illegal
  address and the tables are as they were.
\<close>

theorem write_single_correct:
  assumes "dm_ok dm" and "2 + unat v \<le> length data" and "unat v < 65534" and "5 \<le> length dst"
  shows "(if unat a < 124 then \<exists>dm'. PutResponse I (write_request FCWriteSingleRegister 0 a v) dm dst data =
        Ret (dm', [FCWriteSingleRegister, hi8 a, lo8 a, hi8 v, lo8 v] @ drop 5 dst, data, 5, None) \<and> dm_ok dm' \<and>
        bank_of dm' = (bank_of dm)\<lparr>bHolding := (holding dm)(uint a := v)\<rparr>
      else \<exists>dm'. PutResponse I (write_request FCWriteSingleRegister 0 a v) dm dst data =
        Ret (dm', dst[0 := FCWriteSingleRegister OR 0x80, 1 := ExceptionIllegalDataAddr], data, 2,
          Some (ExceptionErr ExceptionIllegalDataAddr)) \<and> dm_ok dm' \<and> bank_of dm' = bank_of dm) \<and>
    (if unat a < 2000 then \<exists>dm'. PutResponse I (write_request FCWriteSingleCoil 0 a v) dm dst data =
        Ret (dm', [FCWriteSingleCoil, hi8 a, lo8 a, (if v = 0xff00 then 0xff else 0), 0] @ drop 5 dst, data, 5, None) \<and>
        dm_ok dm' \<and> bank_of dm' = (bank_of dm)\<lparr>bCoils := (coil dm)(uint a := bit v 8)\<rparr>
      else \<exists>dm'. PutResponse I (write_request FCWriteSingleCoil 0 a v) dm dst data =
        Ret (dm', dst[0 := FCWriteSingleCoil OR 0x80, 1 := ExceptionIllegalDataAddr], data, 2,
          Some (ExceptionErr ExceptionIllegalDataAddr)) \<and> dm_ok dm' \<and> bank_of dm' = bank_of dm)"
proof
  show "if unat a < 124 then \<exists>dm'. PutResponse I (write_request FCWriteSingleRegister 0 a v) dm dst data =
        Ret (dm', [FCWriteSingleRegister, hi8 a, lo8 a, hi8 v, lo8 v] @ drop 5 dst, data, 5, None) \<and> dm_ok dm' \<and>
        bank_of dm' = (bank_of dm)\<lparr>bHolding := (holding dm)(uint a := v)\<rparr>
      else \<exists>dm'. PutResponse I (write_request FCWriteSingleRegister 0 a v) dm dst data =
        Ret (dm', dst[0 := FCWriteSingleRegister OR 0x80, 1 := ExceptionIllegalDataAddr], data, 2,
          Some (ExceptionErr ExceptionIllegalDataAddr)) \<and> dm_ok dm' \<and> bank_of dm' = bank_of dm"
    using putresponse_write_register [OF assms(1) _ assms(2) _ assms(4), of a I] assms(3,4)
      putresponse_write_single_out [OF assms(1) _ assms(2), of FCWriteSingleRegister a dst I]
    by (auto simp: bank_of_def)
  show "if unat a < 2000 then \<exists>dm'. PutResponse I (write_request FCWriteSingleCoil 0 a v) dm dst data =
        Ret (dm', [FCWriteSingleCoil, hi8 a, lo8 a, (if v = 0xff00 then 0xff else 0), 0] @ drop 5 dst, data, 5, None) \<and>
        dm_ok dm' \<and> bank_of dm' = (bank_of dm)\<lparr>bCoils := (coil dm)(uint a := bit v 8)\<rparr>
      else \<exists>dm'. PutResponse I (write_request FCWriteSingleCoil 0 a v) dm dst data =
        Ret (dm', dst[0 := FCWriteSingleCoil OR 0x80, 1 := ExceptionIllegalDataAddr], data, 2,
          Some (ExceptionErr ExceptionIllegalDataAddr)) \<and> dm_ok dm' \<and> bank_of dm' = bank_of dm"
    using putresponse_write_coil [OF assms(1) _ assms(2) _ assms(4), of a I] assms(3,4)
      putresponse_write_single_out [OF assms(1) _ assms(2), of FCWriteSingleCoil a dst I]
    by (auto simp: bank_of_def)
qed

theorem write_single_correct_witness:
  "(\<exists>dm'. PutResponse noTables (write_request FCWriteSingleRegister 0 123 200) freshModel (replicate 5 0) (replicate 202 0) =
      Ret (dm', [6, hi8 123, lo8 123, hi8 200, lo8 200], replicate 202 0, 5, None) \<and>
    bank_of dm' = (bank_of freshModel)\<lparr>bHolding := (holding freshModel)(123 := 200)\<rparr>) \<and>
   (\<exists>dm'. PutResponse noTables (write_request FCWriteSingleCoil 0 3 0x0100) freshModel (replicate 5 0) (replicate 258 0) =
      Ret (dm', [5, hi8 3, lo8 3, 0, 0], replicate 258 0, 5, None) \<and>
    bank_of dm' = (bank_of freshModel)\<lparr>bCoils := (coil freshModel)(3 := True)\<rparr>)"
proof
  show "\<exists>dm'. PutResponse noTables (write_request FCWriteSingleRegister 0 123 200) freshModel (replicate 5 0) (replicate 202 0) =
      Ret (dm', [6, hi8 123, lo8 123, hi8 200, lo8 200], replicate 202 0, 5, None) \<and>
    bank_of dm' = (bank_of freshModel)\<lparr>bHolding := (holding freshModel)(123 := 200)\<rparr>"
    using write_single_correct [of freshModel 200 "replicate 202 0" "replicate 5 0" 123 noTables]
    by (simp del: DataModel.distinct) blast
  have "bit (0x0100 :: uint16) 8" by simp
  then show "\<exists>dm'. PutResponse noTables (write_request FCWriteSingleCoil 0 3 0x0100) freshModel (replicate 5 0) (replicate 258 0) =
      Ret (dm', [5, hi8 3, lo8 3, 0, 0], replicate 258 0, 5, None) \<and>
    bank_of dm' = (bank_of freshModel)\<lparr>bCoils := (coil freshModel)(3 := True)\<rparr>"
    using write_single_correct [of freshModel "0x0100" "replicate 258 0" "replicate 5 0" 3 noTables]
    by (simp del: DataModel.distinct) blast
qed

text \<open>
  C22. A read of one or more registers or bits that passes the end of its table.  It needs a slice of \<open>n\<close> bytes, which is
  twice the quantity in 16-bit arithmetic for registers and the quantity for bits.  When the request's
  buffer has room for \<open>n + 2\<close> bytes, and \<open>n + 2\<close> does not overflow, the answer is the two bytes of the
  exception response, function code with its top bit set and illegal data address, with the same
  exception as the error; the model is left alone and the client infers a response of two bytes to its
  function code.  In every other case the server panics on the slice instead of answering.
\<close>

theorem read_out_of_range_exception:
  assumes "dm_ok dm" and "0 < unat q" and "2 \<le> length dst"
    and fc: "fc = FCReadHoldingRegisters \<or> fc = FCReadInputRegisters \<or> fc = FCReadCoils \<or> fc = FCReadDiscreteInputs"
    and n: "if fc = FCReadCoils \<or> fc = FCReadDiscreteInputs then 2000 < unat a + unat q \<and> n = unat q
      else 125 < unat a + unat q \<and> n = 2 * unat q mod 65536"
  shows "if 2 + n \<le> length data \<and> 2 + n < 65536
    then \<exists>dst' data'. PutResponse I (read_request fc a q) dm dst data =
        Ret (dm, dst', data', 2, Some (ExceptionErr ExceptionIllegalDataAddr)) \<and>
      take 2 dst' = [fc OR 0x80, ExceptionIllegalDataAddr] \<and> drop 2 dst' = drop 2 dst \<and>
      InferResponsePacketLength dst' = (fc, 2, None)
    else PutResponse I (read_request fc a q) dm dst data = Panic slice_bounds"
proof (cases "2 + n \<le> length data \<and> 2 + n < 65536")
  case True
  obtain x y r where dst: "dst = x # y # r" using two_le_length [OF assms(3)] by blast
  have "InferResponsePacketLength ((fc OR 0x80) # xs) = (fc, 2, None)" for xs
    using fc by (auto simp: InferResponsePacketLength_def Let_def)
  with True show ?thesis
    using putresponse_read_out [OF assms(1,2) fc n _ _ assms(3), of data I] by (auto simp: dst)
next
  case False
  have "unat (quantityBytes (read_request fc a q)) = n"
    using quantityBytes_read [OF fc, of a q] n by (simp split: if_splits)
  with False have "PutResponse I (read_request fc a q) dm dst data = Panic slice_bounds"
    by (intro putresponse_slice_panics) auto
  with False show ?thesis by simp
qed

theorem read_out_of_range_exception_witness:
  "(\<exists>dst' data'. PutResponse noTables (read_request FCReadHoldingRegisters 120 10) freshModel (replicate 30 0) (replicate 30 0) =
      Ret (freshModel, dst', data', 2, Some (ExceptionErr ExceptionIllegalDataAddr)) \<and> take 2 dst' = [0x83, 2]) \<and>
   (\<exists>dst' data'. PutResponse noTables (read_request FCReadCoils 1999 10) freshModel (replicate 30 0) (replicate 30 0) =
      Ret (freshModel, dst', data', 2, Some (ExceptionErr ExceptionIllegalDataAddr)) \<and> take 2 dst' = [0x81, 2]) \<and>
   PutResponse noTables (read_request FCReadInputRegisters 0 300) freshModel (replicate 249 0) (replicate 256 0) =
      Panic slice_bounds"
proof (intro conjI)
  have ok: "dm_ok freshModel" "0 < unat (10 :: uint16)" "2 \<le> length (replicate 30 (0 :: byte))" by simp_all
  have regs: "2 + 20 \<le> length (replicate 30 (0 :: byte)) \<and> 2 + 20 < (65536 :: nat)"
    and bits: "2 + 10 \<le> length (replicate 30 (0 :: byte)) \<and> 2 + 10 < (65536 :: nat)" by simp_all
  have bytes: "FCReadHoldingRegisters OR 0x80 = 0x83" "FCReadCoils OR 0x80 = 0x81" by simp_all
  show "\<exists>dst' data'. PutResponse noTables (read_request FCReadHoldingRegisters 120 10) freshModel (replicate 30 0) (replicate 30 0) =
      Ret (freshModel, dst', data', 2, Some (ExceptionErr ExceptionIllegalDataAddr)) \<and> take 2 dst' = [0x83, 2]"
    using read_out_of_range_exception [OF ok, of FCReadHoldingRegisters 120 20 "replicate 30 0" noTables, unfolded if_P [OF regs]]
    unfolding bytes by fastforce
  show "\<exists>dst' data'. PutResponse noTables (read_request FCReadCoils 1999 10) freshModel (replicate 30 0) (replicate 30 0) =
      Ret (freshModel, dst', data', 2, Some (ExceptionErr ExceptionIllegalDataAddr)) \<and> take 2 dst' = [0x81, 2]"
    using read_out_of_range_exception [OF ok, of FCReadCoils 1999 10 "replicate 30 0" noTables, unfolded if_P [OF bits]]
    unfolding bytes by fastforce
  show "PutResponse noTables (read_request FCReadInputRegisters 0 300) freshModel (replicate 249 0) (replicate 256 0) =
      Panic slice_bounds"
    using read_out_of_range_exception [of freshModel 300 "replicate 249 0" FCReadInputRegisters 0 600 "replicate 256 0" noTables]
    by simp
qed

text \<open>
  C23. Two requests crash the server.  A single write whose value exceeds the length of the request's buffer
  less two, such as switching a coil on, is sliced out of bounds before the model is reached; a
  multiple-coil write that the model accepts ends in the panic of the response switch.
\<close>

theorem valid_writes_panic:
  assumes "fc = FCWriteSingleCoil \<or> fc = FCWriteSingleRegister" and "length data < 2 + unat v"
    and "dm_ok dm" and "unat b + unat q \<le> 2000" and "unat q \<le> 8 * unat n" and "unat n \<le> length d" and "2 + unat q \<le> length d"
  shows "PutResponse I (write_request fc 0 a v) dm dst data = Panic slice_bounds \<and>
    PutResponse I (write_request FCWriteMultipleCoils n b q) dm dst d =
      Panic ''unhandled function code in request.Response()''"
proof
  have "quantityBytes (write_request fc 0 a v) = v" using assms(1) by auto
  then show "PutResponse I (write_request fc 0 a v) dm dst data = Panic slice_bounds"
    using assms(2) by (intro putresponse_slice_panics) simp
qed (rule putresponse_write_coils_panics [OF assms(3-7)])

theorem valid_writes_panic_witness:
  "PutResponse noTables (write_request FCWriteSingleCoil 0 3 0xff00) freshModel (replicate 249 0) (replicate 256 0) =
     Panic slice_bounds \<and>
   PutResponse noTables (write_request FCWriteMultipleCoils 1 0 8) freshModel (replicate 249 0) (replicate 250 0) =
     Panic ''unhandled function code in request.Response()''"
  using valid_writes_panic [of FCWriteSingleCoil "replicate 256 0" "0xff00" freshModel 0 8 1 "replicate 250 0" noTables 3
      "replicate 249 0"]
  by simp

end
