(* ===== verification/Rtu_Server.thy ===== *)
theory Rtu_Server
  imports Put_Response Rtu_Line
begin

text \<open>
  \<open>src/modbusrtu/server.go\<close>: the RTU server.  \<open>HandleNext\<close> loops until a packet for its address or an
  error arrives; the loop takes fuel, and \<open>None\<close> is a call that has not returned.
\<close>

section \<open>The server\<close>

record ('s, 'p, 'w) Server =
  sv_state :: "('s, 'p, 'w) connState"
  sv_address :: uint8

record 's ServerConfig =
  Address :: uint8
  cfgDataModel :: "'s DataModel option"

definition NewServer :: "'p option \<Rightarrow> 's ServerConfig \<Rightarrow> ('s, 'p, 'w) Server outcome" where
  "NewServer port' cfg =
    (if port' = None then Panic ''nil port''
     else if Address cfg < 1 \<or> Address cfg > 247 then Panic ''invalid address''
     else let dm = (case cfgDataModel cfg of None \<Rightarrow> BlockedDM zeroBlockedModel | Some dm \<Rightarrow> dm) in
       Ret \<lparr>sv_state = zeroConn\<lparr>closeErr := Some ErrNotYetConnected, data := Some dm, port := port',
              pendingAddr := Address cfg\<rparr>,
            sv_address = Address cfg\<rparr>)"

definition handleException :: "('p, 'w) World \<Rightarrow> ('s, 'p, 'w) Server \<Rightarrow> 'w \<Rightarrow> Exception \<Rightarrow> FunctionCode \<Rightarrow>
    (('s, 'p, 'w) Server \<times> 'w \<times> goerror option) outcome" where
  "handleException W sv w exc fc =
    (let cs = sv_state sv in
     andThen (sub (rxbuf cs) 0 2) (\<lambda>b.
     andThen (Exception_PutResponse exc b fc) (\<lambda>b.
     andThen (writePort W cs w b) (\<lambda>(w, err).
       Ret (sv\<lparr>sv_state := cs\<lparr>rxbuf := overwrite 0 b (rxbuf cs)\<rparr>\<rparr>, w, err)))))"

text \<open>The receive loop of \<open>HandleNext\<close>.\<close>

fun rxRequest :: "('p, 'w) World \<Rightarrow> uint8 \<Rightarrow> nat \<Rightarrow> ('s, 'p, 'w) connState \<Rightarrow> 'w \<Rightarrow>
    ('s, 'p, 'w) rxresult outcome option" where
  "rxRequest W address 0 cs w = None"
| "rxRequest W address (Suc fuel) cs w =
    (case TryRx W False cs w of
       Panic m \<Rightarrow> Some (Panic m)
     | Blocks \<Rightarrow> Some Blocks
     | Ret (cs, w, pdu, addr, err) \<Rightarrow>
         if err \<noteq> None then
           if err = Some ErrMissingPacketData then rxRequest W address fuel cs w
           else Some (Ret (cs, w, pdu, addr, err))
         else if addr = address then Some (Ret (cs, w, pdu, addr, err))
         else rxRequest W address fuel cs w)"

text \<open>
  The answer to a request of the server's address.  \<open>pdu[dataoffset:]\<close> reaches to the end of the receive
  buffer, the capacity of the slice.
\<close>

definition answer :: "'s DataModelImpl \<Rightarrow> ('p, 'w) World \<Rightarrow> ('s, 'p, 'w) Server \<Rightarrow> 'w \<Rightarrow> (nat \<times> nat) option \<Rightarrow> uint8 \<Rightarrow>
    (('s, 'p, 'w) Server \<times> 'w \<times> goerror option) outcome" where
  "answer I W sv w pdu addr =
    (let cs = sv_state sv in
     andThen (DecodeRequest (pduBytes cs pdu)) (\<lambda>(req, dataoffset, err).
     if err \<noteq> None then Ret (sv, w, err)
     else
       andThen (store (txbuf cs) 0 addr) (\<lambda>sendbuf.
       case (data cs, pdu) of
         (Some dm, Some (off, len)) \<Rightarrow>
           if dataoffset > len then Panic slice_bounds
           else
             andThen (PutResponse I req dm (drop 1 sendbuf) (drop (off + dataoffset) (rxbuf cs)))
               (\<lambda>(dm, dst, d, plen, err).
             let sendbuf = take 1 sendbuf @ dst;
                 cs = cs\<lparr>data := Some dm, txbuf := sendbuf, rxbuf := overwrite (off + dataoffset) d (rxbuf cs)\<rparr>;
                 sv = sv\<lparr>sv_state := cs\<rparr>
             in case err of
                  Some (ExceptionErr exc) \<Rightarrow> handleException W sv w exc (FC req)
                | Some e \<Rightarrow> Ret (sv, w, err)
                | None \<Rightarrow>
                  let endOfData = 1 + plen in
                  andThen (sub sendbuf 0 (int endOfData)) (\<lambda>p.
                  andThen (PutUint16LE sendbuf endOfData (generateCRC p)) (\<lambda>sendbuf.
                  andThen (sub sendbuf 0 (int (endOfData + 2))) (\<lambda>p.
                  andThen (writePort W cs w p) (\<lambda>(w, err).
                    Ret (sv\<lparr>sv_state := cs\<lparr>txbuf := sendbuf\<rparr>\<rparr>, w, err))))))
       | _ \<Rightarrow> Panic nil_dereference)))"

definition HandleNext :: "'s DataModelImpl \<Rightarrow> ('p, 'w) World \<Rightarrow> nat \<Rightarrow> ('s, 'p, 'w) Server \<Rightarrow> 'w \<Rightarrow>
    (('s, 'p, 'w) Server \<times> 'w \<times> goerror option) outcome option" where
  "HandleNext I W fuel sv w =
     map_option (\<lambda>r. andThen r (\<lambda>(cs, w, pdu, addr, err).
         let sv = sv\<lparr>sv_state := cs\<rparr> in
         case err of
           None \<Rightarrow> answer I W sv w pdu addr
         | Some (ExceptionErr exc) \<Rightarrow>
             if length (pduBytes cs pdu) > 2 then handleException W sv w exc (pduBytes cs pdu ! 0)
             else Ret (sv, w, err)
         | Some e \<Rightarrow> Ret (sv, w, err)))
       (rxRequest W (sv_address sv) fuel (sv_state sv) w)"

section \<open>A server on a line\<close>

text \<open>A server between two requests, with its port and its data model.\<close>

definition idle :: "('s, 'p, 'w) Server \<Rightarrow> 'p \<Rightarrow> 's DataModel \<Rightarrow> bool" where
  "idle sv h dm \<longleftrightarrow> (let cs = sv_state sv in rx_ok cs \<and> preproc cs = None \<and> \<not> murx cs \<and> dataStart cs = dataEnd cs \<and>
     port cs = Some h \<and> data cs = Some dm)"

lemma idle_NewServer:
  assumes "NewServer (Some h) cfg = Ret sv"
  shows "idle sv h (case cfgDataModel cfg of None \<Rightarrow> BlockedDM zeroBlockedModel | Some dm \<Rightarrow> dm)"
    and "sv_address sv = Address cfg"
  using assms by (auto simp: NewServer_def idle_def zeroConn_def rx_ok_def Let_def split: if_splits)

lemma frame_in_buffer:
  assumes "length dst = 258" and "n \<le> 256"
  shows "take (n + 3) ((a # dst)[Suc n := lo8 (generateCRC (a # take n dst)), Suc (Suc n) := hi8 (generateCRC (a # take n dst))]) =
    rtu_frame a (take n dst)"
  using take_store2 [of "Suc n" "a # dst"] assms by (simp add: rtu_frame_def numeral_3_eq_3)

lemma answer_nominal:
  assumes lw: "line_writes W h inb out" and idle: "idle sv h dm"
    and dec: "DecodeRequest (rxSlice (sv_state sv) off len) = Ret (req, dataoffset, None)" and len: "dataoffset \<le> len"
    and put: "PutResponse I req dm (drop 1 (txbuf (sv_state sv))) (drop (off + dataoffset) (rxbuf (sv_state sv))) =
      Ret (dm', dst, d, plen, None)"
    and lens: "length dst = 258" "length d = length (drop (off + dataoffset) (rxbuf (sv_state sv)))" "plen \<le> 256"
      "off + dataoffset \<le> 512"
  shows "\<exists>sv' w'. answer I W sv w (Some (off, len)) addr = Ret (sv', w', None) \<and> idle sv' h dm' \<and>
    sv_address sv' = sv_address sv \<and> inb w' = inb w \<and> out w' = out w @ rtu_frame addr (take plen dst)"
proof -
  let ?cs = "sv_state sv"
  have ok: "rx_ok ?cs" "port ?cs = Some h" "data ?cs = Some dm" using idle by (auto simp: idle_def Let_def)
  then obtain x r where tx: "txbuf ?cs = x # r" "length r = 258" by (cases "txbuf ?cs") (auto simp: rx_ok_def)
  let ?send = "addr # dst" and ?crc = "generateCRC (addr # take plen dst)"
  let ?buf = "?send[Suc plen := lo8 ?crc, Suc (Suc plen) := hi8 ?crc]"
  let ?cs1 = "?cs\<lparr>data := Some dm', txbuf := ?send, rxbuf := overwrite (off + dataoffset) d (rxbuf ?cs)\<rparr>"
  let ?sv = "sv\<lparr>sv_state := ?cs1\<lparr>txbuf := ?buf\<rparr>\<rparr>"
  have s1: "sub ?send 0 (int (1 + plen)) = Ret (addr # take plen dst)"
    using sub_nat [of 0 "1 + plen" ?send] lens by simp
  have s2: "PutUint16LE ?send (1 + plen) ?crc = Ret ?buf" using lens by (simp add: PutUint16LE_def)
  have s3: "sub ?buf 0 (int (1 + plen + 2)) = Ret (rtu_frame addr (take plen dst))"
    using sub_nat [of 0 "1 + plen + 2" ?buf] lens frame_in_buffer [of dst plen addr] by (simp add: numeral_3_eq_3)
  obtain w' where w': "writePort W ?cs1 w (rtu_frame addr (take plen dst)) = Ret (w', None)" "inb w' = inb w"
      "out w' = out w @ rtu_frame addr (take plen dst)"
    using writePort_line [OF lw, of ?cs1] ok by auto
  have "answer I W sv w (Some (off, len)) addr = Ret (?sv, w', None)"
    using dec len put ok tx s1 s2 s3 w'(1) by (simp add: answer_def Let_def pduBytes_def store_def)
  moreover have "idle ?sv h dm'"
    using idle ok lens by (auto simp: idle_def Let_def rx_ok_def overwrite_def)
  ultimately show ?thesis using w' by auto
qed

lemma answer_exception:
  assumes lw: "line_writes W h inb out" and idle: "idle sv h dm"
    and dec: "DecodeRequest (rxSlice (sv_state sv) off len) = Ret (req, dataoffset, None)" and len: "dataoffset \<le> len"
    and put: "PutResponse I req dm (drop 1 (txbuf (sv_state sv))) (drop (off + dataoffset) (rxbuf (sv_state sv))) =
      Ret (dm', dst, d, plen, Some (ExceptionErr e))"
    and lens: "length dst = 258" "length d = length (drop (off + dataoffset) (rxbuf (sv_state sv)))" "off + dataoffset \<le> 512"
  shows "\<exists>sv' w'. answer I W sv w (Some (off, len)) addr = Ret (sv', w', None) \<and> idle sv' h dm' \<and>
    sv_address sv' = sv_address sv \<and> inb w' = inb w \<and> out w' = out w @ [FC req OR 0x80, e]"
proof -
  let ?cs = "sv_state sv"
  have ok: "rx_ok ?cs" "port ?cs = Some h" "data ?cs = Some dm" using idle by (auto simp: idle_def Let_def)
  then obtain x r where tx: "txbuf ?cs = x # r" "length r = 258" by (cases "txbuf ?cs") (auto simp: rx_ok_def)
  let ?cs1 = "?cs\<lparr>data := Some dm', txbuf := addr # dst, rxbuf := overwrite (off + dataoffset) d (rxbuf ?cs)\<rparr>"
  let ?sv1 = "sv\<lparr>sv_state := ?cs1\<rparr>"
  have len1: "length (rxbuf ?cs1) = 512" using ok lens by (simp add: rx_ok_def overwrite_def)
  then obtain y z s where buf: "rxbuf ?cs1 = y # z # s" using two_le_length [of "rxbuf ?cs1"] by auto
  have ls: "length s = 510" using len1 unfolding buf by simp
  have "sub (rxbuf ?cs1) 0 2 = Ret [y, z]" using buf by (simp add: sub_def)
  moreover have "Exception_PutResponse e [y, z] (FC req) = Ret [FC req OR 0x80, e]" by (simp add: go_simps)
  moreover obtain w' where w': "writePort W ?cs1 w [FC req OR 0x80, e] = Ret (w', None)" "inb w' = inb w"
      "out w' = out w @ [FC req OR 0x80, e]"
    using writePort_line [OF lw, of ?cs1] ok by auto
  ultimately have "handleException W ?sv1 w e (FC req) =
      Ret (sv\<lparr>sv_state := ?cs1\<lparr>rxbuf := overwrite 0 [FC req OR 0x80, e] (rxbuf ?cs1)\<rparr>\<rparr>, w', None)"
    by (simp add: handleException_def Let_def)
  moreover have "answer I W sv w (Some (off, len)) addr = handleException W ?sv1 w e (FC req)"
    using dec len put ok tx by (simp add: answer_def Let_def pduBytes_def store_def)
  moreover have "idle (sv\<lparr>sv_state := ?cs1\<lparr>rxbuf := overwrite 0 [FC req OR 0x80, e] (rxbuf ?cs1)\<rparr>\<rparr>) h dm'"
    using idle ok lens len1 buf ls by (auto simp: idle_def Let_def rx_ok_def overwrite_def)
  ultimately show ?thesis using w' by auto
qed

section \<open>Requests on the line\<close>

lemma idle_after_rx:
  assumes "idle sv h dm" and "same_conn (sv_state sv) cs" and "rx_ok cs" and "dataStart cs = dataEnd cs"
  shows "idle (sv\<lparr>sv_state := cs\<rparr>) h dm"
  using assms by (auto simp: idle_def Let_def same_conn_def)

text \<open>A request of fixed length: one turn of the loop.\<close>

lemma HandleNext_fixed:
  assumes L: "line_reads W h inb out" and idle: "idle sv h dm"
    and inb: "inb w = rtu_frame b [fc, c1, c2, c3, c4] @ rest"
    and fc: "fc = FCReadHoldingRegisters \<or> fc = FCReadInputRegisters \<or> fc = FCReadCoils \<or>
      fc = FCReadDiscreteInputs \<or> fc = FCWriteSingleCoil \<or> fc = FCWriteSingleRegister"
  shows "\<exists>sv' w'. HandleNext I W (Suc n) sv w =
      (if b = sv_address sv then Some (answer I W sv' w' (Some (1, 5)) b) else HandleNext I W n sv' w') \<and>
    idle sv' h dm \<and> sv_address sv' = sv_address sv \<and> rxSlice (sv_state sv') 1 5 = [fc, c1, c2, c3, c4] \<and>
    inb w' = rest \<and> out w' = out w"
proof -
  let ?cs = "sv_state sv" and ?pdu = "[fc, c1, c2, c3, c4]"
  have ok: "rx_ok ?cs" "preproc ?cs = None" "port ?cs = Some h" "\<not> murx ?cs" "dataStart ?cs = dataEnd ?cs"
    using idle by (auto simp: idle_def Let_def)
  have inf: "inferLength False [hd ?pdu] = (fc, word_of_nat (length ?pdu), None)"
    using InferRequest_simple [OF fc, of "[]"] by (simp add: inferLength_def)
  have l5: "length ?pdu = 5" by simp
  from TryRx_fixed [OF L ok inb _ _ inf, unfolded l5] obtain cs' w' where
    r: "TryRx W False ?cs w = Ret (cs', w', Some (1, 5), b, None)" "rx_ok cs'" "same_conn ?cs cs'"
      "dataStart cs' = dataEnd cs'" "rxSlice cs' 1 5 = ?pdu" "inb w' = rest" "out w' = out w"
    by auto
  let ?sv = "sv\<lparr>sv_state := cs'\<rparr>"
  have "HandleNext I W (Suc n) sv w =
      (if b = sv_address sv then Some (answer I W ?sv w' (Some (1, 5)) b) else HandleNext I W n ?sv w')"
    by (simp add: HandleNext_def r(1))
  moreover have "idle ?sv h dm" using idle_after_rx [OF idle r(3,2,4)] .
  ultimately show ?thesis using r by (intro exI [of _ ?sv] exI [of _ w']) auto
qed

text \<open>A multiple write: the first turn asks for the byte count, the second for the data.\<close>

lemma HandleNext_multiple:
  assumes L: "line_reads W h inb out" and idle: "idle sv h dm" and fc: "fc = FCWriteMultipleCoils \<or> fc = FCWriteMultipleRegisters"
    and pdu: "pdu = [fc, c1, c2, c3, c4, word_of_nat (length d)] @ d" "0 < length d" "length d < 256"
    and inb: "inb w = rtu_frame (sv_address sv) pdu @ rest"
  shows "\<exists>sv' w'. HandleNext I W (Suc (Suc n)) sv w = Some (answer I W sv' w' (Some (1, length pdu)) (sv_address sv)) \<and>
    idle sv' h dm \<and> sv_address sv' = sv_address sv \<and> rxSlice (sv_state sv') 1 (length pdu) = pdu \<and>
    inb w' = rest \<and> out w' = out w"
proof -
  let ?cs = "sv_state sv" and ?a = "sv_address sv"
  have ok: "rx_ok ?cs" "preproc ?cs = None" "port ?cs = Some h" "\<not> murx ?cs" "dataStart ?cs = dataEnd ?cs"
    using idle by (auto simp: idle_def Let_def)
  define ck where "ck = drop (length pdu + 1) (rtu_frame ?a pdu)"
  have inf1: "inferLength False [hd pdu] = (0, 5, Some ErrMissingPacketData)"
    using fc by (auto simp: pdu(1) inferLength_def InferRequestPacketLength_def)
  have u5: "unat (5 :: uint16) + 2 = 7" by simp
  have inf2: "inferLength False (take (unat (5 :: uint16) + 2) (pdu @ ck)) = (fc, word_of_nat (length pdu), None)"
    using InferRequest_multiple [OF fc pdu(3), of c1 c2 c3 c4 "take 1 (d @ ck)"]
    unfolding u5 by (simp add: pdu(1) inferLength_def add.commute)
  have len: "pdu \<noteq> []" "length pdu \<le> 509" "0 < unat (5 :: uint16)" "unat (5 :: uint16) < length pdu" "unat (5 :: uint16) \<le> 253"
    using pdu by auto
  from TryRx_two_calls [OF L ok inb len inf1 inf2 ck_def] obtain cs1 w1 cs' w' where
    r: "TryRx W False ?cs w = Ret (cs1, w1, None, 0, Some ErrMissingPacketData)"
      "TryRx W False cs1 w1 = Ret (cs', w', Some (1, length pdu), ?a, None)" "rx_ok cs'" "same_conn ?cs cs'"
      "dataStart cs' = dataEnd cs'" "rxSlice cs' 1 (length pdu) = pdu" "inb w' = rest" "out w' = out w"
    by blast
  let ?sv = "sv\<lparr>sv_state := cs'\<rparr>"
  have "HandleNext I W (Suc (Suc n)) sv w = Some (answer I W ?sv w' (Some (1, length pdu)) ?a)"
    by (simp add: HandleNext_def r(1,2))
  moreover have "idle ?sv h dm" using idle_after_rx [OF idle r(4,3,5)] .
  ultimately show ?thesis using r by (intro exI [of _ ?sv] exI [of _ w']) auto
qed

lemma idle_lengths:
  assumes "idle sv h dm"
  shows "length (rxbuf (sv_state sv)) = 512" and "length (txbuf (sv_state sv)) = 259"
  using assms by (auto simp: idle_def Let_def rx_ok_def)

text \<open>
  An RTU server answers a register read: from an idle state, when the frame of a read request of its
  address arrives, \<open>HandleNext\<close> returns without error after writing one frame with its address, the
  requested registers and a correct CRC; it consumes exactly the request, keeps the data model and is idle
  again.
\<close>

lemma server_answers_read:
  assumes "line_reads W h inb out" and "line_writes W h inb out" and "idle sv h dm" and "dm_ok dm"
    and fc: "fc = FCReadHoldingRegisters \<or> fc = FCReadInputRegisters" and "0 < unat q" and "unat a + unat q \<le> 125"
    and "inb w = rtu_frame (sv_address sv) [fc, hi8 a, lo8 a, hi8 q, lo8 q] @ rest"
  shows "\<exists>sv' w'. HandleNext I W (Suc n) sv w = Some (Ret (sv', w', None)) \<and> idle sv' h dm \<and>
    sv_address sv' = sv_address sv \<and> inb w' = rest \<and>
    out w' = out w @ rtu_frame (sv_address sv)
      (fc # word_of_nat (2 * unat q) # be_bytes (map (\<lambda>k. regs_of fc dm (uint a + int k)) [0..<unat q]))"
proof -
  let ?pdu = "[fc, hi8 a, lo8 a, hi8 q, lo8 q]"
  let ?rsp = "fc # word_of_nat (2 * unat q) # be_bytes (map (\<lambda>k. regs_of fc dm (uint a + int k)) [0..<unat q])"
  obtain sv1 w1 where r: "HandleNext I W (Suc n) sv w = Some (answer I W sv1 w1 (Some (1, 5)) (sv_address sv))"
      "idle sv1 h dm" "sv_address sv1 = sv_address sv" "rxSlice (sv_state sv1) 1 5 = ?pdu" "inb w1 = rest" "out w1 = out w"
    using HandleNext_fixed [OF assms(1,3,8), of I n] fc by auto
  have dec: "DecodeRequest (rxSlice (sv_state sv1) 1 5) = Ret (read_request fc a q, 0, None)"
    using DecodeRequest_simple [of fc a q "[]"] fc unfolding r(4) by (auto simp: read_request_def)
  note len = idle_lengths [OF r(2)]
  have put: "PutResponse I (read_request fc a q) dm (drop 1 (txbuf (sv_state sv1))) (drop (1 + 0) (rxbuf (sv_state sv1))) =
      Ret (dm, ?rsp @ drop (2 + 2 * unat q) (drop 1 (txbuf (sv_state sv1))),
        overwrite 2 (be_bytes (map (\<lambda>k. regs_of fc dm (uint a + int k)) [0..<unat q])) (drop (1 + 0) (rxbuf (sv_state sv1))),
        2 + 2 * unat q, None)"
    using putresponse_registers [OF assms(4) fc assms(6,7)] assms(7) len by simp
  show ?thesis
    using answer_nominal [OF assms(2) r(2) dec _ put, of w1 "sv_address sv"] assms(7) len r by auto
qed

text \<open>A server of address 17 with a fresh data model, for examples.\<close>

definition demoServer :: "(unit, unit, Line) Server" where
  "demoServer = \<lparr>sv_state = zeroConn\<lparr>closeErr := Some ErrNotYetConnected, data := Some (BlockedDM zeroBlockedModel),
     port := Some (), pendingAddr := 17\<rparr>, sv_address = 17\<rparr>"

lemma demoServer_new: "NewServer (Some ()) \<lparr>Address = 17, cfgDataModel = None\<rparr> = Ret demoServer"
  by (simp add: NewServer_def demoServer_def)

lemma demoServer_idle: "idle demoServer () (BlockedDM zeroBlockedModel)" "sv_address demoServer = 17"
  using idle_NewServer [OF demoServer_new] by simp_all

abbreviation "lineWith frame \<equiv> \<lparr>inbox = frame, outbox = [], clock = 0\<rparr>"

text \<open>
  An RTU server performs a multiple-register write: when the frame of the request a client marshals
  arrives, two turns of the receive loop are enough; the server stores exactly the client's registers,
  changes nothing else in the model and answers with one frame that echoes address and quantity.
\<close>

lemma server_performs_write:
  assumes "line_reads W h inb out" and "line_writes W h inb out" and "idle sv h dm" and "dm_ok dm"
    and rs: "0 < length rs" "length rs \<le> 123" "unat a + length rs < 125"
    and "RequestWriteMultipleRegisters (replicate 255 0) a rs = Ret (pdu @ tx, length pdu, None)"
    and "inb w = rtu_frame (sv_address sv) pdu @ rest"
  shows "\<exists>sv' w' dm'. HandleNext I W (Suc (Suc n)) sv w = Some (Ret (sv', w', None)) \<and> idle sv' h dm' \<and> dm_ok dm' \<and>
    bank_of dm' = (bank_of dm)\<lparr>bHolding := upd_range (holding dm) (uint a) rs\<rparr> \<and>
    sv_address sv' = sv_address sv \<and> inb w' = rest \<and>
    out w' = out w @ rtu_frame (sv_address sv)
      [FCWriteMultipleRegisters, hi8 a, lo8 a, hi8 (word_of_nat (length rs)), lo8 (word_of_nat (length rs))]"
proof -
  let ?q = "word_of_nat (length rs) :: uint16" and ?n = "word_of_nat (2 * length rs) :: byte"
  let ?pdu = "[FCWriteMultipleRegisters, hi8 a, lo8 a, hi8 ?q, lo8 ?q, word_of_nat (length (be_bytes rs))] @ be_bytes rs"
  have "?pdu @ replicate (249 - 2 * length rs) 0 = pdu @ tx" "length ?pdu = length pdu"
    using assms(8) rs by (auto simp: tx_simps)
  then have pdu: "pdu = ?pdu" by (metis append_eq_append_conv)
  have q: "unat ?q = length rs" using rs(2) by (simp add: unat_of_nat)
  have n: "unat ?n = 2 * length rs" using rs(2) unat_of_nat [of "2 * length rs", where 'a = 8] by simp
  obtain sv1 w1 where r: "HandleNext I W (Suc (Suc n)) sv w = Some (answer I W sv1 w1 (Some (1, length pdu)) (sv_address sv))"
      "idle sv1 h dm" "sv_address sv1 = sv_address sv" "rxSlice (sv_state sv1) 1 (length pdu) = pdu" "inb w1 = rest" "out w1 = out w"
    using HandleNext_multiple [OF assms(1,3) _ pdu _ _ assms(9), of I n] rs by auto
  have dec: "DecodeRequest (rxSlice (sv_state sv1) 1 (length pdu)) = Ret (write_request FCWriteMultipleRegisters ?n a ?q, 6, None)"
    using DecodeRequest_multiple [of FCWriteMultipleRegisters "be_bytes rs" a ?q "[]"] rs unfolding r(4) unfolding pdu
    by (simp add: write_request_def)
  note len = idle_lengths [OF r(2)]
  let ?data = "drop (1 + 6) (rxbuf (sv_state sv1))"
  have "take (2 * length rs) ?data = drop 6 (rxSlice (sv_state sv1) 1 (length pdu))"
    using rs by (simp add: rxSlice_def pdu drop_take)
  also have "\<dots> = be_bytes rs" unfolding r(4) unfolding pdu by simp
  finally have data: "?data = be_bytes rs @ drop (2 * length rs) ?data"
    using append_take_drop_id [of "2 * length rs" ?data] by simp
  have "data_regs ?data (unat ?q) = rs" unfolding q by (subst data) (rule data_regs_be_bytes)
  then obtain dm' where put: "PutResponse I (write_request FCWriteMultipleRegisters ?n a ?q) dm (drop 1 (txbuf (sv_state sv1))) ?data =
      Ret (dm', [FCWriteMultipleRegisters, hi8 a, lo8 a, hi8 ?q, lo8 ?q] @ drop 5 (drop 1 (txbuf (sv_state sv1))), ?data, 5, None)"
      and dm': "dm_ok dm'" "bank_of dm' = (bank_of dm)\<lparr>bHolding := upd_range (holding dm) (uint a) rs\<rparr>"
    using putresponse_write_registers [OF assms(4), of a ?q ?n ?data "drop 1 (txbuf (sv_state sv1))" I] rs len
    unfolding q n by (auto simp: bank_of_def)
  have "6 \<le> length pdu" by (simp add: pdu)
  then show ?thesis
    using answer_nominal [OF assms(2) r(2) dec _ put, of w1 "sv_address sv"] len r dm' by auto
qed

text \<open>
  Requests to other addresses are consumed and ignored: after any number of frames of fixed length to
  other devices, \<open>HandleNext\<close> continues with the rest of the line, has written nothing and has not touched the
  model.
\<close>

theorem rtu_server_ignores_others:
  assumes "line_reads W h inb out" and "idle sv h dm"
    and "list_all (\<lambda>(b, fc, c1, c2, c3, c4). b \<noteq> sv_address sv \<and> (fc = FCReadHoldingRegisters \<or> fc = FCReadInputRegisters \<or>
      fc = FCReadCoils \<or> fc = FCReadDiscreteInputs \<or> fc = FCWriteSingleCoil \<or> fc = FCWriteSingleRegister)) others"
    and "inb w = concat (map (\<lambda>(b, fc, c1, c2, c3, c4). rtu_frame b [fc, c1, c2, c3, c4]) others) @ rest"
  shows "\<exists>sv' w'. HandleNext I W (length others + n) sv w = HandleNext I W n sv' w' \<and> idle sv' h dm \<and>
    sv_address sv' = sv_address sv \<and> inb w' = rest \<and> out w' = out w"
  using assms(2-4)
proof (induction others arbitrary: sv w)
  case Nil
  then show ?case by auto
next
  case (Cons x others)
  obtain b fc c1 c2 c3 c4 where x: "x = (b, fc, c1, c2, c3, c4)" by (cases x)
  obtain sv1 w1 where r: "HandleNext I W (Suc (length others + n)) sv w = HandleNext I W (length others + n) sv1 w1"
      "idle sv1 h dm" "sv_address sv1 = sv_address sv"
      "inb w1 = concat (map (\<lambda>(b, fc, c1, c2, c3, c4). rtu_frame b [fc, c1, c2, c3, c4]) others) @ rest" "out w1 = out w"
    using HandleNext_fixed [OF assms(1) Cons.prems(1), of w b fc c1 c2 c3 c4 _ I "length others + n"] Cons.prems(2,3)
    by (auto simp: x)
  with Cons.IH [OF r(2) _ r(4)] Cons.prems(2) show ?case by auto
qed

theorem rtu_server_ignores_others_witness:
  "\<exists>sv' w'. HandleNext noTables lineWorld 3 demoServer (lineWith (rtu_frame 5 [3, 0, 0, 0, 1] @ rtu_frame 9 [1, 0, 0, 0, 1])) =
      HandleNext noTables lineWorld 1 sv' w' \<and> idle sv' () (BlockedDM zeroBlockedModel) \<and> outbox w' = []"
  using rtu_server_ignores_others [OF lineWorld_reads demoServer_idle(1),
      of "[(5, 3, 0, 0, 0, 1), (9, 1, 0, 0, 0, 1)]"
        "lineWith (rtu_frame 5 [3, 0, 0, 0, 1] @ rtu_frame 9 [1, 0, 0, 0, 1])" "[]" noTables 1]
  by (auto simp: demoServer_idle(2) numeral_3_eq_3)

text \<open>
  C34. The exception answer of an RTU server is two bytes, the function code with its top bit set and the
  exception, without address and without CRC: it is not a frame.  A register read that passes the end of the
  table gets it, and the model is unchanged.
\<close>

theorem rtu_server_exception_unframed:
  assumes "line_reads W h inb out" and "line_writes W h inb out" and "idle sv h dm" and "dm_ok dm"
    and fc: "fc = FCReadHoldingRegisters \<or> fc = FCReadInputRegisters" and "0 < unat q" and "unat q \<le> 125" and "125 < unat a + unat q"
    and "inb w = rtu_frame (sv_address sv) [fc, hi8 a, lo8 a, hi8 q, lo8 q] @ rest"
  shows "\<exists>sv' w'. HandleNext I W (Suc n) sv w = Some (Ret (sv', w', None)) \<and> idle sv' h dm \<and>
    inb w' = rest \<and> out w' = out w @ [fc OR 0x80, ExceptionIllegalDataAddr] \<and>
    (\<forall>b pdu. [fc OR 0x80, ExceptionIllegalDataAddr] \<noteq> rtu_frame b pdu)"
proof -
  let ?pdu = "[fc, hi8 a, lo8 a, hi8 q, lo8 q]"
  obtain sv1 w1 where r: "HandleNext I W (Suc n) sv w = Some (answer I W sv1 w1 (Some (1, 5)) (sv_address sv))"
      "idle sv1 h dm" "sv_address sv1 = sv_address sv" "rxSlice (sv_state sv1) 1 5 = ?pdu" "inb w1 = rest" "out w1 = out w"
    using HandleNext_fixed [OF assms(1,3,9), of I n] fc by auto
  have dec: "DecodeRequest (rxSlice (sv_state sv1) 1 5) = Ret (read_request fc a q, 0, None)"
    using DecodeRequest_simple [of fc a q "[]"] fc unfolding r(4) by (auto simp: read_request_def)
  note len = idle_lengths [OF r(2)]
  obtain d where put: "PutResponse I (read_request fc a q) dm (drop 1 (txbuf (sv_state sv1))) (drop (1 + 0) (rxbuf (sv_state sv1))) =
      Ret (dm, (drop 1 (txbuf (sv_state sv1)))[0 := fc OR 0x80, 1 := ExceptionIllegalDataAddr], d, 2,
        Some (ExceptionErr ExceptionIllegalDataAddr))" and d: "length d = length (drop (1 + 0) (rxbuf (sv_state sv1)))"
    using putresponse_registers_out [OF assms(4) fc assms(6,8), of "drop (1 + 0) (rxbuf (sv_state sv1))"
        "drop 1 (txbuf (sv_state sv1))" I] assms(7) len by auto
  have "[fc OR 0x80, ExceptionIllegalDataAddr] \<noteq> rtu_frame b pdu" for b pdu
    by (auto dest: arg_cong [of _ _ length])
  then show ?thesis
    using answer_exception [OF assms(2) r(2) dec _ put _ d, of w1 "sv_address sv"] len r by (auto simp: read_request_def)
qed

theorem rtu_server_exception_unframed_witness:
  "\<exists>sv' w'. HandleNext noTables lineWorld 1 demoServer (lineWith (rtu_frame 17 [3, hi8 124, lo8 124, hi8 2, lo8 2])) = Some (Ret (sv', w', None)) \<and>
    outbox w' = [0x83, 2]"
proof -
  have "(3 :: byte) OR 0x80 = 0x83" by simp
  then show ?thesis
    using rtu_server_exception_unframed [OF lineWorld_reads lineWorld_writes demoServer_idle(1), of FCReadHoldingRegisters 2 124
        "lineWith (rtu_frame 17 [3, hi8 124, lo8 124, hi8 2, lo8 2])" "[]" noTables 0]
    by (auto simp: demoServer_idle(2))
qed

end
