(* ===== verification/Rtu_System.thy ===== *)
theory Rtu_System
  imports Rtu_Device Rtu_Server
begin

text \<open>
  An RTU client and an RTU server on one line: the client's port hands every written frame to the server's
  \<open>HandleNext\<close>, and what the server writes is received by the client.  The server implements the device contract
  of the client, so the exchanges of the client end with the registers of the server's data model.
\<close>

section \<open>The bus\<close>

record 's Bus =
  busServer :: "('s, unit, Line) Server"
  toClient :: "byte list"
  busClock :: int

text \<open>
  Writing runs the server on the written bytes, with the two turns of its receive loop that a whole frame takes.
  A server that waits for more bytes keeps the writer waiting.
\<close>

definition busWorld :: "'s DataModelImpl \<Rightarrow> (unit, 's Bus) World" where
  "busWorld I = \<lparr>
     portRead = \<lambda>h w p. if toClient w = [] then Blocks
       else let k = min (length p) (length (toClient w)) in
         Ret (w\<lparr>toClient := drop k (toClient w)\<rparr>, take k (toClient w) @ drop k p, int k, None),
     portWrite = \<lambda>h w p.
       (case HandleNext I lineWorld 2 (busServer w) (\<lparr>inbox = p, outbox = [], clock = busClock w\<rparr>) of
          Some (Ret (sv, l, err)) \<Rightarrow> Ret (w\<lparr>busServer := sv, toClient := toClient w @ outbox l\<rparr>, int (length p), None)
        | Some (Panic m) \<Rightarrow> Panic m
        | Some Blocks \<Rightarrow> Blocks
        | None \<Rightarrow> Blocks),
     timeNow = \<lambda>w. (w\<lparr>busClock := busClock w + 1\<rparr>, busClock w),
     timeSleep = \<lambda>w d. w\<lparr>busClock := busClock w + max 0 d\<rparr>\<rparr>"

text \<open>The server is idle on its line, with address \<open>dev\<close>; its registers are those of its data model.\<close>

definition serving :: "uint8 \<Rightarrow> ('s, unit, 'w) Server \<Rightarrow> bool" where
  "serving dev sv \<longleftrightarrow> sv_address sv = dev \<and> (\<exists>dm. idle sv () dm \<and> dm_ok dm)"

definition server_table :: "FunctionCode \<Rightarrow> ('s, unit, 'w) Server \<Rightarrow> int \<Rightarrow> uint16" where
  "server_table fc sv = regs_of fc (the (data (sv_state sv)))"

lemma server_table_idle: "idle sv () dm \<Longrightarrow> server_table fc sv = regs_of fc dm"
  by (simp add: server_table_def idle_def Let_def)

lemma busWorld_reads: "line_reads (busWorld I) h toClient busServer"
  by (auto simp: line_reads_def reader_contract_def busWorld_def min_def Let_def)

text \<open>The server discharges the contract the client relies on.\<close>

lemma bus_answers_read:
  fixes w :: "'s Bus"
  assumes "serving dev (busServer w)" and empty: "toClient w = []" and fc: "fc = FCReadHoldingRegisters \<or> fc = FCReadInputRegisters"
    and q: "0 < unat q" "unat a + unat q \<le> 125"
  shows "\<exists>w' k. portWrite (busWorld I) () w (rtu_frame dev [fc, hi8 a, lo8 a, hi8 q, lo8 q]) = Ret (w', k, None) \<and>
    serving dev (busServer w') \<and> (\<forall>fc. server_table fc (busServer w') = server_table fc (busServer w)) \<and>
    toClient w' = rtu_frame dev (fc # word_of_nat (2 * unat q) #
      be_bytes (map (\<lambda>k. server_table fc (busServer w) (uint a + int k)) [0..<unat q]))"
proof -
  let ?pdu = "[fc, hi8 a, lo8 a, hi8 q, lo8 q]"
  let ?l = "\<lparr>inbox = rtu_frame dev ?pdu, outbox = [], clock = busClock w\<rparr>"
  obtain dm where dm: "idle (busServer w) () dm" "dm_ok dm" and dev: "sv_address (busServer w) = dev"
    using assms(1) by (auto simp: serving_def)
  have "inbox ?l = rtu_frame (sv_address (busServer w)) ?pdu @ []" by (simp add: dev)
  from server_answers_read [OF lineWorld_reads lineWorld_writes dm fc q this, of I 1] obtain sv' l' where
    r: "HandleNext I lineWorld 2 (busServer w) ?l = Some (Ret (sv', l', None))" "idle sv' () dm" "sv_address sv' = dev"
      "outbox l' = rtu_frame dev (fc # word_of_nat (2 * unat q) # be_bytes (map (\<lambda>k. regs_of fc dm (uint a + int k)) [0..<unat q]))"
    by (auto simp: dev numeral_2_eq_2)
  let ?w = "w\<lparr>busServer := sv', toClient := outbox l'\<rparr>"
  have "portWrite (busWorld I) () w (rtu_frame dev ?pdu) = Ret (?w, int (length (rtu_frame dev ?pdu)), None)"
    using r(1) empty by (simp add: busWorld_def)
  moreover have "serving dev (busServer ?w)" using r dm by (auto simp: serving_def)
  ultimately show ?thesis
    using r(4) server_table_idle [OF r(2)] server_table_idle [OF dm(1)] by (intro exI [of _ ?w]) auto
qed

lemma bus_performs_write:
  fixes w :: "'s Bus"
  assumes "serving dev (busServer w)" and empty: "toClient w = []"
    and rs: "0 < length rs" "length rs \<le> 123" "unat a + length rs < 125" and q: "q = word_of_nat (length rs)"
  shows "\<exists>w' k. portWrite (busWorld I) () w (rtu_frame dev ([FCWriteMultipleRegisters, hi8 a, lo8 a, hi8 q, lo8 q,
      word_of_nat (2 * length rs)] @ be_bytes rs)) = Ret (w', k, None) \<and> serving dev (busServer w') \<and>
    server_table FCReadHoldingRegisters (busServer w') = upd_range (server_table FCReadHoldingRegisters (busServer w)) (uint a) rs \<and>
    server_table FCReadInputRegisters (busServer w') = server_table FCReadInputRegisters (busServer w) \<and>
    toClient w' = rtu_frame dev [FCWriteMultipleRegisters, hi8 a, lo8 a, hi8 q, lo8 q]"
proof -
  let ?pdu = "[FCWriteMultipleRegisters, hi8 a, lo8 a, hi8 q, lo8 q, word_of_nat (2 * length rs)] @ be_bytes rs"
  let ?l = "\<lparr>inbox = rtu_frame dev ?pdu, outbox = [], clock = busClock w\<rparr>"
  obtain dm where dm: "idle (busServer w) () dm" "dm_ok dm" and dev: "sv_address (busServer w) = dev"
    using assms(1) by (auto simp: serving_def)
  have "inbox ?l = rtu_frame (sv_address (busServer w)) ?pdu @ []" by (simp add: dev)
  moreover have "RequestWriteMultipleRegisters (replicate 255 0) a rs = Ret (?pdu @ replicate (249 - 2 * length rs) 0, length ?pdu, None)"
    using rs q by (simp add: tx_simps)
  ultimately obtain sv' l' dm' where
    r: "HandleNext I lineWorld 2 (busServer w) ?l = Some (Ret (sv', l', None))" "idle sv' () dm'" "dm_ok dm'"
      "bank_of dm' = (bank_of dm)\<lparr>bHolding := upd_range (holding dm) (uint a) rs\<rparr>" "sv_address sv' = dev"
      "outbox l' = rtu_frame dev [FCWriteMultipleRegisters, hi8 a, lo8 a, hi8 q, lo8 q]"
    using server_performs_write [OF lineWorld_reads lineWorld_writes dm rs, of ?pdu _ ?l "[]" I 0] q by (auto simp: dev numeral_2_eq_2)
  let ?w = "w\<lparr>busServer := sv', toClient := outbox l'\<rparr>"
  have "portWrite (busWorld I) () w (rtu_frame dev ?pdu) = Ret (?w, int (length (rtu_frame dev ?pdu)), None)"
    using r(1) empty by (simp add: busWorld_def)
  moreover have "serving dev (busServer ?w)" using r by (auto simp: serving_def)
  moreover have "holding dm' = upd_range (holding dm) (uint a) rs" "inputs dm' = inputs dm" using r(4) by (simp_all add: bank_of_def)
  ultimately show ?thesis
    using r(6) server_table_idle [OF r(2)] server_table_idle [OF dm(1)] by (intro exI [of _ ?w]) (auto simp: regs_of_def)
qed

interpretation bus: rtu_device "busWorld I" "()" toClient busServer "serving dev" server_table dev
  for I :: "'s DataModelImpl" and dev
  by (rule rtu_device.intro) (rule busWorld_reads bus_answers_read bus_performs_write; assumption)+

section \<open>Exchanges of a client and a server\<close>

text \<open>
  C1. A client's register read returns the registers of the server: on a bus with an idle server of the address,
  \<open>ReadHoldingRegisters\<close> and \<open>ReadInputRegisters\<close> return without error, within two turns of the receive loop,
  the registers of the server's data model; the model is unchanged, and client and server are ready for the next
  exchange.
\<close>

theorem rtu_client_reads_server:
  assumes "ready c ()" and "idle (busServer w) () dm" and "dm_ok dm" and "toClient w = []"
    and "0 < length regs" and "unat a + length regs \<le> 125"
  shows "\<exists>c1 w1 c2 w2.
    ReadHoldingRegisters (busWorld I) (Suc (Suc n)) c w (sv_address (busServer w)) a regs =
      Some (Ret (c1, w1, map (\<lambda>k. holding dm (uint a + int k)) [0..<length regs], None)) \<and>
    ready c1 () \<and> server_table fc (busServer w1) = regs_of fc dm \<and> serving (sv_address (busServer w)) (busServer w1) \<and> toClient w1 = [] \<and>
    ReadInputRegisters (busWorld I) (Suc (Suc n)) c w (sv_address (busServer w)) a regs =
      Some (Ret (c2, w2, map (\<lambda>k. inputs dm (uint a + int k)) [0..<length regs], None)) \<and>
    ready c2 () \<and> server_table fc (busServer w2) = regs_of fc dm \<and> serving (sv_address (busServer w)) (busServer w2) \<and> toClient w2 = []"
proof -
  let ?dev = "sv_address (busServer w)"
  have inv: "serving ?dev (busServer w)" using assms(2,3) by (auto simp: serving_def)
  have "\<exists>c' w'. readRegisters (busWorld I) (Suc (Suc n)) c w f ?dev a regs =
      Some (Ret (c', w', map (\<lambda>k. regs_of f dm (uint a + int k)) [0..<length regs], None)) \<and>
    ready c' () \<and> server_table fc (busServer w') = regs_of fc dm \<and> serving ?dev (busServer w') \<and> toClient w' = []"
    if "f = FCReadHoldingRegisters \<or> f = FCReadInputRegisters" for f
    using bus.client_read [OF assms(1) inv assms(4) that assms(5,6), of I n] server_table_idle [OF assms(2)] by auto
  from this [of FCReadHoldingRegisters] this [of FCReadInputRegisters] show ?thesis
    unfolding ReadHoldingRegisters_def ReadInputRegisters_def by (simp add: regs_of_def)
qed

text \<open>A bus with a fresh server of address 17, for examples.\<close>

definition demoBus :: "unit Bus" where
  "demoBus = \<lparr>busServer = demoServer, toClient = [], busClock = 0\<rparr>"

lemma demoBus_simps: "busServer demoBus = demoServer" "toClient demoBus = []"
  by (simp_all add: demoBus_def)

theorem rtu_client_reads_server_witness:
  "\<exists>c1 w1. ReadInputRegisters (busWorld noTables) (Suc (Suc 0)) demoClient demoBus 17 7 [1, 2] = Some (Ret (c1, w1, [0, 0], None)) \<and> ready c1 ()"
proof -
  have "dm_ok (BlockedDM zeroBlockedModel :: unit DataModel)" by simp
  from rtu_client_reads_server [where c = demoClient and w = demoBus and fc = 4, unfolded demoBus_simps demoServer_idle(2),
      OF demoClient_ready demoServer_idle(1) this refl, of "[1, 2]" 7 noTables 0]
  show ?thesis
    by (auto simp: inputs_def zeroBlockedModel_def upt_rec)
qed

text \<open>
  C2. What a client writes it reads back: \<open>WriteHoldingRegisters\<close> of one to 123 registers below address 124
  returns without error, the server's holding registers are changed exactly in that range and its input registers
  not at all, and \<open>ReadHoldingRegisters\<close> of the same range then returns the written registers.
\<close>

theorem rtu_write_read_back:
  assumes "ready c ()" and "idle (busServer w) () dm" and "dm_ok dm" and "toClient w = []"
    and "0 < length rs" and "length rs \<le> 123" and "unat a + length rs < 125" and "length regs = length rs"
  shows "\<exists>c1 w1 c2 w2.
    WriteHoldingRegisters (busWorld I) (Suc (Suc n)) c w (sv_address (busServer w)) a rs = Some (Ret (c1, w1, None)) \<and>
    server_table FCReadHoldingRegisters (busServer w1) = upd_range (holding dm) (uint a) rs \<and>
    server_table FCReadInputRegisters (busServer w1) = inputs dm \<and>
    ReadHoldingRegisters (busWorld I) (Suc (Suc n)) c1 w1 (sv_address (busServer w)) a regs = Some (Ret (c2, w2, rs, None)) \<and>
    ready c2 () \<and> serving (sv_address (busServer w)) (busServer w2) \<and> toClient w2 = []"
proof -
  let ?dev = "sv_address (busServer w)"
  have inv: "serving ?dev (busServer w)" using assms(2,3) by (auto simp: serving_def)
  from bus.client_write_read [OF assms(1) inv assms(4-8), of I n]
    bus.client_write [OF assms(1) inv assms(4-7), of I n]
  show ?thesis
    unfolding ReadHoldingRegisters_def server_table_idle [OF assms(2)] by (auto simp: regs_of_def)
qed

theorem rtu_write_read_back_witness:
  "\<exists>c1 w1 c2 w2. WriteHoldingRegisters (busWorld noTables) (Suc (Suc 0)) demoClient demoBus 17 7 [0x1234, 0xabcd] = Some (Ret (c1, w1, None)) \<and>
     ReadHoldingRegisters (busWorld noTables) (Suc (Suc 0)) c1 w1 17 7 [0, 0] = Some (Ret (c2, w2, [0x1234, 0xabcd], None))"
proof -
  have "dm_ok (BlockedDM zeroBlockedModel :: unit DataModel)" by simp
  from rtu_write_read_back [where c = demoClient and w = demoBus, unfolded demoBus_simps demoServer_idle(2),
      OF demoClient_ready demoServer_idle(1) this refl, of "[0x1234, 0xabcd]" 7 "[0, 0]" noTables 0]
  show ?thesis by auto
qed

end
