(* ===== verification/Rtu_Transaction.thy ===== *)
theory Rtu_Transaction
  imports Rtu_Client
begin

text \<open>
  The transactions of the client when the line does not simply deliver the answer: frames that the filters
  discard, the error count, the deadline, and the counts the read and write methods refuse.
\<close>

section \<open>Frames that the filters discard\<close>

lemma rxLoop_mono: "rxLoop W tmo dl rxFC dev n ec r = Some x \<Longrightarrow> rxLoop W tmo dl rxFC dev (n + k) ec r = Some x"
proof (induction n arbitrary: ec r)
  case 0
  then show ?case by simp
next
  case (Suc n)
  obtain cs w pdu addr err where r: "r = (cs, w, pdu, addr, err)" by (cases r)
  from Suc.prems Suc.IH show ?case
    unfolding r by (auto simp: Let_def split: prod.splits outcome.splits if_splits)
qed

text \<open>A response frame of another device, or with another function code than the request, an exception among them.\<close>

definition discarded :: "FunctionCode \<Rightarrow> uint8 \<Rightarrow> uint8 \<times> byte list \<Rightarrow> bool" where
  "discarded rxFC dev f \<longleftrightarrow> response_pdu (snd f) \<and> \<not> ((dev = 0 \<or> dev = fst f) \<and> (rxFC = 0 \<or> rxFC = hd (snd f)))"

lemma rxLoop_discards:
  fixes cs :: "('s, 'p, 'w) connState"
  assumes L: "line_reads W h inb obs" and ok: "rx_ok cs" "preproc cs = None" "port cs = Some h" "\<not> murx cs" "dataStart cs = dataEnd cs"
    and sleep: "\<forall>w d. inb (timeSleep W w d) = inb w" and inb: "inb w = rtu_frame (fst f) (snd f) @ rest" and f: "discarded rxFC dev f"
    and ec: "ec < 5"
  shows "\<exists>cs' w' k. k \<le> 2 \<and> (\<forall>n. rxLoop W tmo None rxFC dev (n + k) ec (cs, w, r) = rxLoop W tmo None rxFC dev n (ec + 1) (cs', w', None, fst f, None)) \<and>
    rx_ok cs' \<and> same_conn cs cs' \<and> dataStart cs' = dataEnd cs' \<and> inb w' = rest"
proof -
  obtain a pdu where a: "f = (a, pdu)" by (cases f)
  have pdu: "response_pdu pdu" using f by (simp add: discarded_def a)
  obtain cs' w' where t: "TryRx W True cs w = Ret (cs', w', Some (1, length pdu), a, None) \<or>
      (\<exists>cs1 w1. TryRx W True cs w = Ret (cs1, w1, None, 0, Some ErrMissingPacketData) \<and>
        TryRx W True cs1 w1 = Ret (cs', w', Some (1, length pdu), a, None))"
    and r: "rx_ok cs'" "same_conn cs cs'" "dataStart cs' = dataEnd cs'" "rxSlice cs' 1 (length pdu) = pdu" "inb w' = rest"
    using TryRx_response [OF L ok _ pdu] inb a by fastforce
  let ?w = "timeSleep W w' (sgn tmo * (\<bar>tmo\<bar> div 16))"
  have "2 \<le> length pdu" "pdu \<noteq> []" using response_pdu_length [OF pdu] by auto
  then have "\<not> accepts cs' rxFC dev (Some (1, length pdu)) a" "\<not> accepts cs1 rxFC dev None 0" for cs1 :: "('s, 'p, 'w) connState"
    using r(4) f a by (auto simp: accepts_def pduBytes_def hd_conv_nth discarded_def)
  then have "\<exists>k\<le>2. \<forall>n. rxLoop W tmo None rxFC dev (n + k) ec (cs, w, r) = rxLoop W tmo None rxFC dev n (ec + 1) (cs', ?w, None, a, None)"
    using t
  proof (elim disjE exE conjE)
    assume "TryRx W True cs w = Ret (cs', w', Some (1, length pdu), a, None)" "\<not> accepts cs' rxFC dev (Some (1, length pdu)) a"
    then have "\<forall>n. rxLoop W tmo None rxFC dev (n + 1) ec (cs, w, r) = rxLoop W tmo None rxFC dev n (ec + 1) (cs', ?w, None, a, None)"
      using ec by (cases r) (auto simp: pastDeadline_def)
    then show ?thesis by (intro exI [of _ 1]) simp
  next
    fix cs1 w1
    assume "TryRx W True cs w = Ret (cs1, w1, None, 0, Some ErrMissingPacketData)" "\<And>cs1 :: ('s, 'p, 'w) connState. \<not> accepts cs1 rxFC dev None 0"
      "TryRx W True cs1 w1 = Ret (cs', w', Some (1, length pdu), a, None)" "\<not> accepts cs' rxFC dev (Some (1, length pdu)) a"
    then have "\<forall>n. rxLoop W tmo None rxFC dev (Suc (Suc n)) ec (cs, w, r) = rxLoop W tmo None rxFC dev n (ec + 1) (cs', ?w, None, a, None)"
      using ec by (cases r) (auto simp: pastDeadline_def)
    then show ?thesis by (intro exI [of _ 2]) simp
  qed
  moreover have "inb ?w = rest" using r(5) sleep by simp
  ultimately show ?thesis using r a by auto
qed

lemma rxLoop_discards_all:
  fixes cs :: "('s, 'p, 'w) connState"
  assumes L: "line_reads W h inb obs" and sleep: "\<forall>w d. inb (timeSleep W w d) = inb w"
    and "rx_ok cs" "preproc cs = None" "port cs = Some h" "\<not> murx cs" "dataStart cs = dataEnd cs"
    and "inb w = concat (map (\<lambda>f. rtu_frame (fst f) (snd f)) fs) @ rest" and "list_all (discarded rxFC dev) fs" and "ec + length fs \<le> 5"
  shows "\<exists>cs' w' k a. k \<le> 2 * length fs \<and>
    (\<forall>n. rxLoop W tmo None rxFC dev (n + k) ec (cs, w, None, b, None) = rxLoop W tmo None rxFC dev n (ec + length fs) (cs', w', None, a, None)) \<and>
    rx_ok cs' \<and> same_conn cs cs' \<and> dataStart cs' = dataEnd cs' \<and> inb w' = rest"
  using assms(3-)
proof (induction fs arbitrary: cs w b ec)
  case Nil
  then show ?case by (intro exI [of _ cs] exI [of _ w] exI [of _ "0 :: nat"] exI [of _ b]) simp
next
  case (Cons f fs)
  have "inb w = rtu_frame (fst f) (snd f) @ concat (map (\<lambda>f. rtu_frame (fst f) (snd f)) fs) @ rest" "discarded rxFC dev f" "ec < 5"
    using Cons.prems(6-8) by simp_all
  from rxLoop_discards [OF L Cons.prems(1-5) sleep this, of tmo "(None, b, None)"] obtain cs1 w1 k1 where
    s1: "k1 \<le> 2" "\<forall>n. rxLoop W tmo None rxFC dev (n + k1) ec (cs, w, None, b, None) = rxLoop W tmo None rxFC dev n (ec + 1) (cs1, w1, None, fst f, None)"
      "rx_ok cs1" "same_conn cs cs1" "dataStart cs1 = dataEnd cs1" "inb w1 = concat (map (\<lambda>f. rtu_frame (fst f) (snd f)) fs) @ rest"
    by blast
  have conn: "preproc cs1 = None" "port cs1 = Some h" "\<not> murx cs1" using s1(4) Cons.prems(2-4) by (simp_all add: same_conn_def)
  have "list_all (discarded rxFC dev) fs" "(ec + 1) + length fs \<le> 5" using Cons.prems(7,8) by simp_all
  from Cons.IH [OF s1(3) conn s1(5,6) this, of "fst f"] obtain cs' w' k a where
    s2: "k \<le> 2 * length fs" "\<forall>n. rxLoop W tmo None rxFC dev (n + k) (ec + 1) (cs1, w1, None, fst f, None) =
        rxLoop W tmo None rxFC dev n (ec + 1 + length fs) (cs', w', None, a, None)"
      "rx_ok cs'" "same_conn cs1 cs'" "dataStart cs' = dataEnd cs'" "inb w' = rest"
    by blast
  have "\<forall>n. rxLoop W tmo None rxFC dev (n + (k + k1)) ec (cs, w, None, b, None) =
      rxLoop W tmo None rxFC dev n (ec + length (f # fs)) (cs', w', None, a, None)"
    using s1(2) s2(2) by (simp add: add.assoc [symmetric])
  moreover have "k + k1 \<le> 2 * length (f # fs)" using s1(1) s2(1) by simp
  ultimately show ?case using s2 same_conn_trans [OF s1(4) s2(4)] by blast
qed

text \<open>A transaction on such a line, from the end of the discarded frames.\<close>

lemma transaction_discards:
  assumes L: "line_reads W h inb obs" and sleep: "\<forall>w d. inb (timeSleep W w d) = inb w" and c: "ready c h"
    and n: "n = length req + 3" "n \<le> 256" "take (length req + 1) (cl_txbuf c) = b # req"
    and wr: "portWrite W h w (rtu_frame b req) = Ret (w1, k, None)"
    and inb: "inb w1 = concat (map (\<lambda>f. rtu_frame (fst f) (snd f)) fs) @ rest"
    and fs: "list_all (discarded rxFC dev) fs" "length fs \<le> 5"
  shows "\<exists>c1 w' a. (\<forall>m x. rxLoop W (timeout c) None rxFC dev m (length fs) (cl_state c1, w', None, a, None) = Some (Ret x) \<longrightarrow>
      transaction W (m + 2 * length fs) c w rxFC dev n = Some (Ret (finishRx c1 x))) \<and> ready c1 h \<and> inb w' = rest"
proof -
  obtain c1 where c1: "\<forall>fuel. transaction W fuel c w rxFC dev n =
      map_option (\<lambda>r. andThen r (\<lambda>r. Ret (finishRx c1 r))) (rxLoop W (timeout c) None rxFC dev fuel 0 (cl_state c, w1, None, 0, None))"
    and ready1: "ready c1 h" "cl_state c1 = cl_state c"
    using transaction_sends [OF c n wr] by blast
  have "0 + length fs \<le> 5" using fs(2) by simp
  from rxLoop_discards_all [OF L sleep ready_conn [OF c] inb fs(1) this, of "timeout c" 0] obtain cs' w' k' a where
    r: "k' \<le> 2 * length fs" "rxLoop W (timeout c) None rxFC dev (m + k') 0 (cl_state c, w1, None, 0, None) =
        rxLoop W (timeout c) None rxFC dev m (length fs) (cs', w', None, a, None)"
      "rx_ok cs'" "same_conn (cl_state c) cs'" "dataStart cs' = dataEnd cs'" "inb w' = rest" for m
    by auto
  have "transaction W (m + 2 * length fs) c w rxFC dev n = Some (Ret (finishRx (c1\<lparr>cl_state := cs'\<rparr>) x))"
    if "rxLoop W (timeout c) None rxFC dev m (length fs) (cs', w', None, a, None) = Some (Ret x)" for m x
  proof -
    have "m + 2 * length fs = m + k' + (2 * length fs - k')" using r(1) by simp
    then have "rxLoop W (timeout c) None rxFC dev (m + 2 * length fs) 0 (cl_state c, w1, None, 0, None) = Some (Ret x)"
      using rxLoop_mono [of W "timeout c" None rxFC dev "m + k'"] r(2) that by metis
    then show ?thesis using c1 by (cases x) (simp add: finishRx_def Let_def)
  qed
  moreover have "ready (c1\<lparr>cl_state := cs'\<rparr>) h" using ready_after_rx [OF ready1(1)] ready1(2) r(3-5) by simp
  ultimately show ?thesis using r(6) by (intro exI [of _ "c1\<lparr>cl_state := cs'\<rparr>"] exI [of _ w'] exI [of _ a]) simp
qed

section \<open>The deadline\<close>

text \<open>
  The clock \<open>ck\<close> of the world: a reading returns it, and nothing turns it back.  It may be coarse: \<open>ph\<close>
  counts the readings since it last moved, of which there are at most \<open>K\<close>.
\<close>

definition ticking :: "('p, 'w) World \<Rightarrow> ('w \<Rightarrow> int) \<Rightarrow> ('w \<Rightarrow> nat) \<Rightarrow> nat \<Rightarrow> bool" where
  "ticking W ck ph K \<longleftrightarrow> (\<forall>w. ph w \<le> K) \<and>
     (\<forall>w w' t. timeNow W w = (w', t) \<longrightarrow> t = ck w \<and> (ck w < ck w' \<or> ck w = ck w' \<and> ph w < ph w')) \<and>
     (\<forall>h w p w' p' n e. portRead W h w p = Ret (w', p', n, e) \<longrightarrow> ck w < ck w' \<or> ck w = ck w' \<and> ph w \<le> ph w') \<and>
     (\<forall>w d. ck w < ck (timeSleep W w d) \<or> ck w = ck (timeSleep W w d) \<and> ph w \<le> ph (timeSleep W w d))"

text \<open>Time and readings together advance at every reading.\<close>

definition progress :: "('w \<Rightarrow> int) \<Rightarrow> ('w \<Rightarrow> nat) \<Rightarrow> nat \<Rightarrow> 'w \<Rightarrow> int" where
  "progress ck ph K w = ck w * (int K + 1) + int (ph w)"

definition advances :: "('p, 'w) World \<Rightarrow> ('w \<Rightarrow> int) \<Rightarrow> bool" where
  "advances W pt \<longleftrightarrow> (\<forall>w w' t. timeNow W w = (w', t) \<longrightarrow> pt w < pt w') \<and>
     (\<forall>h w p w' p' n e. portRead W h w p = Ret (w', p', n, e) \<longrightarrow> pt w \<le> pt w') \<and> (\<forall>w d. pt w \<le> pt (timeSleep W w d))"

lemma progress_bounds:
  assumes "ph w \<le> K"
  shows "ck w * (int K + 1) \<le> progress ck ph K w" and "ck w < d \<longleftrightarrow> progress ck ph K w < d * (int K + 1)"
proof -
  show "ck w * (int K + 1) \<le> progress ck ph K w" by (simp add: progress_def)
  show "ck w < d \<longleftrightarrow> progress ck ph K w < d * (int K + 1)"
  proof
    assume "ck w < d"
    then have "(ck w + 1) * (int K + 1) \<le> d * (int K + 1)" by (intro mult_right_mono) auto
    with assms show "progress ck ph K w < d * (int K + 1)" by (simp add: progress_def algebra_simps)
  next
    assume "progress ck ph K w < d * (int K + 1)"
    then have "ck w * (int K + 1) < d * (int K + 1)" unfolding progress_def by linarith
    then show "ck w < d" by (rule mult_right_less_imp_less) simp
  qed
qed

lemma progress_later:
  assumes "ph w \<le> K" and "ck w < ck w'"
  shows "progress ck ph K w < progress ck ph K w'"
  using progress_bounds(2) [of ph w K ck "ck w'"] assms by (simp add: progress_def)

lemma ticking_advances:
  assumes "ticking W ck ph K"
  shows "advances W (progress ck ph K)"
proof -
  have "ck w < ck w' \<or> ck w = ck w' \<and> ph w \<le> ph w' \<Longrightarrow> progress ck ph K w \<le> progress ck ph K w'"
    and "ck w < ck w' \<or> ck w = ck w' \<and> ph w < ph w' \<Longrightarrow> progress ck ph K w < progress ck ph K w'" for w w'
    using progress_later [of ph w K ck w'] assms by (auto simp: ticking_def progress_def)
  then show ?thesis using assms unfolding ticking_def advances_def by blast
qed

lemma advances_now: "advances W ck \<Longrightarrow> timeNow W w = (w', t) \<Longrightarrow> ck w < ck w'"
  unfolding advances_def by blast

lemma advances_read: "advances W ck \<Longrightarrow> portRead W h w p = Ret (w', p', n, e) \<Longrightarrow> ck w \<le> ck w'"
  unfolding advances_def by blast

lemma read_ticks:
  assumes T: "advances W ck" and "preproc cs = None" and "read W cs w upTo = Ret (cs', w', n, e)"
  shows "ck w \<le> ck w'"
  using assms(2,3)
  by (auto simp: read_def andThen_eq_Ret runPreproc_def Let_def split: if_splits option.splits prod.splits
      dest!: advances_read [OF T] advances_now [OF T])

lemma checkPacket_world: "checkPacket cs w pdulen = Ret (cs', w', r) \<Longrightarrow> w' = w"
  by (auto simp: checkPacket_def andThen_eq_Ret Let_def split: if_splits)

lemma rxPacket_ticks:
  assumes T: "advances W ck" and pre: "preproc cs = None" and r: "rxPacket W b cs w = Ret (cs', w', r)"
  shows "ck w \<le> ck w'"
proof -
  from r obtain x where x: "sub (rxbuf cs) (dataStart cs + 1) (dataEnd cs) = Ret x"
    by (auto simp: rxPacket_def andThen_eq_Ret)
  obtain fc n e where inf: "inferLength b x = (fc, n, e)" by (cases "inferLength b x")
  show ?thesis
  proof (cases "e = Some ErrBadFunctionCode")
    case True
    then show ?thesis using r by (simp add: rxPacket_def x inf)
  next
    case False
    with r obtain cs1 w1 k e1 where rd: "read W cs w (int (unat n) + 3 - buffered cs) = Ret (cs1, w1, k, e1)"
      and "w' = w1 \<or> checkPacket cs1 w1 n = Ret (cs', w', r)"
      by (auto simp: rxPacket_def x inf Let_def andThen_eq_Ret split: if_splits)
    then show ?thesis using read_ticks [OF T pre rd] by (metis checkPacket_world)
  qed
qed

lemma TryRx_ticks:
  assumes T: "advances W ck" and W: "reader_contract W" and ok: "rx_ok cs" "preproc cs = None" and r: "TryRx W b cs w = Ret (cs', w', r)"
  shows "ck w \<le> ck w'"
proof -
  obtain cs0 where cs0: "(if dataEnd cs > 256 \<or> buffered cs = 0 then resetRxBuf cs else Ret cs) = Ret cs0" "rx_ok cs0" "same_conn cs cs0"
    using wrap_ok [OF ok(1)] by blast
  have pre: "preproc cs0 = None" using cs0(3) ok(2) by (simp add: same_conn_def)
  show ?thesis
  proof (cases "buffered cs0 < 2")
    case True
    then obtain cs1 w1 n e where rd: "read W cs0 w (2 - buffered cs0) = Ret (cs1, w1, n, e)"
      and rest: "w' = w1 \<or> (\<exists>r'. rxPacket W b cs1 w1 = Ret (cs', w', r'))"
      using r by (auto simp: TryRx_def cs0(1) andThen_eq_Ret split: if_splits)
    have "preproc cs1 = None" using read_Ret [OF W cs0(2) pre _ rd] True pre by (simp add: same_conn_def)
    then show ?thesis using read_ticks [OF T pre rd] rest rxPacket_ticks [OF T, of cs1 b w1 cs' w'] by fastforce
  next
    case False
    then show ?thesis using r rxPacket_ticks [OF T pre, of b w cs' w'] by (auto simp: TryRx_def cs0(1) andThen_eq_Ret split: if_splits)
  qed
qed

lemma read_not_Blocks:
  assumes "\<And>h w p. portRead W h w p \<noteq> Blocks" and "preproc cs = None"
  shows "read W cs w upTo \<noteq> Blocks"
proof (cases "port cs")
  case None
  then show ?thesis by (simp add: read_def sub_def)
next
  case (Some h)
  let ?p = "take (nat upTo) (drop (nat (dataEnd cs)) (rxbuf cs))"
  show ?thesis
  proof (cases "portRead W h w ?p")
    case (Ret r)
    then show ?thesis using assms(2) Some by (cases r) (auto simp: read_def sub_def runPreproc_def Let_def split: prod.splits)
  qed (use assms(1) Some in \<open>auto simp: read_def sub_def\<close>)
qed

lemma checkPacket_not_Blocks: "checkPacket cs w n \<noteq> Blocks"
  by (simp add: checkPacket_def index_def sub_def Uint16LE_def Let_def)

lemma rxPacket_not_Blocks:
  assumes "\<And>h w p. portRead W h w p \<noteq> Blocks" and "preproc cs = None"
  shows "rxPacket W b cs w \<noteq> Blocks"
proof (cases "sub (rxbuf cs) (dataStart cs + 1) (dataEnd cs)")
  case (Ret x)
  obtain fc n e where inf: "inferLength b x = (fc, n, e)" by (cases "inferLength b x")
  show ?thesis
    using read_not_Blocks [where W = W, OF assms, of w "int (unat n) + 3 - buffered cs"]
    by (cases "read W cs w (int (unat n) + 3 - buffered cs)")
      (auto simp: rxPacket_def Ret inf Let_def checkPacket_not_Blocks split: if_splits)
qed (auto simp: rxPacket_def sub_def split: if_splits)

lemma TryRx_not_Blocks:
  fixes cs :: "('s, 'p, 'w) connState"
  assumes W: "\<And>h w p. portRead W h w p \<noteq> Blocks" and "reader_contract W" and ok: "rx_ok cs" "preproc cs = None" "\<not> murx cs"
  shows "TryRx W b cs w \<noteq> Blocks"
proof -
  obtain cs0 where cs0: "(if dataEnd cs > 256 \<or> buffered cs = 0 then resetRxBuf cs else Ret cs) = Ret cs0" "rx_ok cs0" "same_conn cs cs0"
    using wrap_ok [OF ok(1)] by blast
  have pre: "preproc cs0 = None" using cs0(3) ok(2) by (simp add: same_conn_def)
  have fin: "andThen x (\<lambda>(cs, w, r). andThen (rxBytes cs) (\<lambda>_. Ret (cs, w, r))) \<noteq> Blocks" if "x \<noteq> Blocks"
    for x :: "('s, 'p, 'w) rxresult outcome"
    using that by (cases x) (auto simp: rxBytes_def sub_def split: if_splits)
  show ?thesis
  proof (cases "buffered cs0 < 2")
    case True
    let ?rd = "read W cs0 w (2 - buffered cs0)"
    have "andThen ?rd (\<lambda>(cs', w, n, err).
        if buffered cs0 + n < 2 then
          if err \<noteq> None then Ret (cs', w, None, 0, err) else Ret (cs', w, None, 0, Some ErrMissingPacketData)
        else rxPacket W b cs' w) \<noteq> Blocks"
    proof (cases ?rd)
      case (Ret r)
      obtain cs1 w1 n e where r: "r = (cs1, w1, n, e)" by (cases r)
      have "preproc cs1 = None" using read_Ret [OF assms(2) cs0(2) pre _ Ret [unfolded r]] True pre by (simp add: same_conn_def)
      then show ?thesis using rxPacket_not_Blocks [where W = W, OF W] Ret r by auto
    qed (use read_not_Blocks [where W = W, OF W pre] in auto)
    from fin [OF this] show ?thesis using True ok(3) unfolding TryRx_def cs0(1) by simp
  next
    case False
    then show ?thesis using fin [OF rxPacket_not_Blocks [where W = W, OF W pre]] ok(3) unfolding TryRx_def cs0(1) by simp
  qed
qed

text \<open>
  A port that always returns: it keeps the contract of \<open>io.Reader\<close>, neither its reads nor its writes wait
  without limit, and the clock moves.  What it delivers, bytes and errors, is arbitrary.
\<close>

definition responsive :: "('p, 'w) World \<Rightarrow> ('w \<Rightarrow> int) \<Rightarrow> ('w \<Rightarrow> nat) \<Rightarrow> nat \<Rightarrow> bool" where
  "responsive W ck ph K \<longleftrightarrow> reader_contract W \<and> ticking W ck ph K \<and> (\<forall>h w p. portRead W h w p \<noteq> Blocks) \<and>
     (\<forall>h w b. \<exists>w' n e. portWrite W h w b = Ret (w', n, e))"

text \<open>
  The invariant of a client between two calls, with whatever is left in the receive buffer, which without
  \<open>strict\<close> may be a whole packet.
\<close>

definition conn_ok :: "bool \<Rightarrow> ('s, 'p, 'w) connState \<Rightarrow> bool" where
  "conn_ok strict cs \<longleftrightarrow> rx_ok cs \<and> preproc cs = None \<and> port cs \<noteq> None \<and> \<not> murx cs \<and> awaiting strict (pending cs)"

definition client_ok :: "bool \<Rightarrow> ('s, 'p, 'w) Client \<Rightarrow> bool" where
  "client_ok strict c \<longleftrightarrow> conn_ok strict (cl_state c) \<and> \<not> muTx c \<and> length (cl_txbuf c) = 256"

lemma client_ok_weaken: "client_ok True c \<Longrightarrow> client_ok strict c"
  by (auto simp: client_ok_def conn_ok_def intro: awaiting_weaken)

text \<open>A call that ends: with a result that satisfies \<open>P\<close>, or without \<open>strict\<close> with the panic of \<open>read\<close>.\<close>

definition ends :: "bool \<Rightarrow> 'a outcome \<Rightarrow> ('a \<Rightarrow> bool) \<Rightarrow> bool" where
  "ends strict r P \<longleftrightarrow> (\<exists>x. r = Ret x \<and> P x) \<or> \<not> strict \<and> r = Panic ''read 0''"

lemma ends_Ret [simp]: "ends strict (Ret x) P \<longleftrightarrow> P x"
  and ends_Panic [simp]: "ends strict (Panic m) P \<longleftrightarrow> \<not> strict \<and> m = ''read 0''"
  by (auto simp: ends_def)

lemma ends_andThen: "ends strict r P \<Longrightarrow> (\<And>x. P x \<Longrightarrow> ends strict (f x) Q) \<Longrightarrow> ends strict (andThen r f) Q"
  by (cases r) (auto simp: ends_def [of strict "Blocks"])

lemma ends_mono: "ends strict r P \<Longrightarrow> (\<And>x. P x \<Longrightarrow> Q x) \<Longrightarrow> ends strict r Q"
  by (auto simp: ends_def)

lemma TryRx_returns:
  assumes R: "responsive W ck ph K" "strict \<longrightarrow> quiet_reader W" and ok: "conn_ok strict cs"
  shows "ends strict (TryRx W True cs w) (\<lambda>(cs', w', r). conn_ok strict cs' \<and> progress ck ph K w \<le> progress ck ph K w')"
proof (cases "TryRx W True cs w")
  case (Ret r)
  obtain cs' w' pdu a err where r: "r = (cs', w', pdu, a, err)" by (cases r)
  have "advances W (progress ck ph K)" using R(1) by (auto simp: responsive_def intro: ticking_advances)
  then have "progress ck ph K w \<le> progress ck ph K w'"
    using TryRx_ticks [of W _ cs True w] R ok Ret r by (auto simp: responsive_def conn_ok_def)
  moreover have "\<not> murx cs'" using TryRx_Ret [of W cs True w cs'] R ok Ret r by (simp add: responsive_def conn_ok_def same_conn_def)
  ultimately show ?thesis
    using TryRx_response_safe [of W strict cs w] R ok Ret r by (auto simp: responsive_def conn_ok_def)
next
  case (Panic m)
  then show ?thesis using TryRx_response_safe [of W strict cs w m] R ok by (auto simp: responsive_def conn_ok_def)
next
  case Blocks
  then show ?thesis using TryRx_not_Blocks [of W cs True w] R ok by (auto simp: responsive_def conn_ok_def)
qed

lemma rxLoop_returns:
  assumes R: "responsive W ck ph K" "strict \<longrightarrow> quiet_reader W" and "conn_ok strict cs"
    and "nat (d * (int K + 1) - progress ck ph K w) < fuel"
  shows "\<exists>x. rxLoop W tmo (Some d) rxFC dev fuel ec (cs, w, r) = Some x \<and> ends strict x (\<lambda>(cs', r). conn_ok strict cs')"
  using assms(3,4)
proof (induction fuel arbitrary: cs w ec r)
  case 0
  then show ?case by simp
next
  case (Suc fuel)
  let ?pt = "progress ck ph K"
  obtain pdu a err where r: "r = (pdu, a, err)" by (cases r)
  obtain w1 t where now: "timeNow W w = (w1, t)" by (cases "timeNow W w")
  have T: "ticking W ck ph K" using R by (simp add: responsive_def)
  have t: "t = ck w" using T now unfolding ticking_def by blast
  have adv: "?pt w < ?pt w1" by (rule advances_now [OF ticking_advances [OF T] now])
  show ?case
  proof (cases "d - ck w > 0 \<and> ec < 5")
    case True
    then have before: "?pt w < d * (int K + 1)" using progress_bounds(2) [of ph w K ck d] T by (simp add: ticking_def)
    show ?thesis
    proof (cases "TryRx W True cs w1")
      case (Ret x)
      obtain cs2 w2 pdu2 a2 err2 where x: "x = (cs2, w2, pdu2, a2, err2)" by (cases x)
      have rx: "conn_ok strict cs2" "?pt w1 \<le> ?pt w2" using TryRx_returns [OF R Suc.prems(1), of w1] Ret x by simp_all
      have later: "nat (d * (int K + 1) - ?pt w3) < fuel" if "?pt w2 \<le> ?pt w3" for w3
        using that rx(2) adv before Suc.prems(2) by linarith
      have "?pt w2 \<le> ?pt (timeSleep W w2 z)" for z using ticking_advances [OF T] by (simp add: advances_def)
      with Suc.IH [OF rx(1) later] show ?thesis
        using True rx(1) Ret x now t by (simp add: r pastDeadline_def)
    qed (use TryRx_returns [OF R Suc.prems(1), of w1] True now t in \<open>auto simp: r pastDeadline_def ends_def\<close>)
  next
    case False
    then show ?thesis using Suc.prems now t by (auto simp: r pastDeadline_def)
  qed
qed

lemma transaction_returns:
  assumes R: "responsive W ck ph K" "strict \<longrightarrow> quiet_reader W" and ok: "client_ok strict c"
    and tmo: "0 < timeout c" "nat (timeout c) * (K + 1) \<le> fuel" and n: "3 \<le> n" "n \<le> 256"
  shows "\<exists>x. transaction W fuel c w rxFC dev n = Some x \<and> ends strict x (\<lambda>(c', w', pdu, a, err). client_ok strict c')"
proof -
  obtain h where h: "port (cl_state c) = Some h" using ok by (auto simp: client_ok_def conn_ok_def)
  have len: "length (cl_txbuf c) = 256" using ok by (simp add: client_ok_def)
  have "sub (cl_txbuf c) 0 (int n - 2) = Ret (take (n - 2) (cl_txbuf c))"
    using n len sub_nat [of 0 "n - 2" "cl_txbuf c"] by simp
  moreover obtain packet where packet: "PutUint16LE (take n (cl_txbuf c)) (n - 2) (generateCRC (take (n - 2) (cl_txbuf c))) = Ret packet"
      "length packet = n"
    using PutUint16LE_Ret [of "n - 2" "take n (cl_txbuf c)"] n len by simp
  moreover obtain w1 k e where wr: "portWrite W h w packet = Ret (w1, k, e)" using R(1) by (auto simp: responsive_def) metis
  moreover obtain w2 t where now: "timeNow W w1 = (w2, t)" by (cases "timeNow W w1")
  ultimately have eq: "transaction W fuel c w rxFC dev n =
      (let c = c\<lparr>cl_txbuf := overwrite 0 packet (cl_txbuf c)\<rparr> in
       if e \<noteq> None then Some (Ret (c, w1, None, 0, e))
       else map_option (\<lambda>r. andThen r (\<lambda>r. Ret (finishRx c r)))
         (rxLoop W (timeout c) (Some (t + timeout c)) rxFC dev fuel 0 (cl_state c, w2, None, 0, None)))"
    using h tmo(1) by (simp add: transaction_def writePort_def Let_def)
  let ?c = "c\<lparr>cl_txbuf := overwrite 0 packet (cl_txbuf c)\<rparr>"
  have c: "client_ok strict (?c\<lparr>cl_state := cs\<rparr>)" if "conn_ok strict cs" for cs
    using ok that packet(2) n len by (simp add: client_ok_def)
  show ?thesis
  proof (cases e)
    case None
    have T: "ticking W ck ph K" using R(1) by (simp add: responsive_def)
    have "t = ck w1" using T now unfolding ticking_def by blast
    then have "t * (int K + 1) < progress ck ph K w2"
      using progress_bounds(1) [of ph w1 K ck] advances_now [OF ticking_advances [OF T] now] T by (simp add: ticking_def)
    moreover have "timeout c * (int K + 1) \<le> int fuel" using tmo by (simp flip: of_nat_le_iff [where 'a = int] add: algebra_simps)
    ultimately have "nat ((t + timeout c) * (int K + 1) - progress ck ph K w2) < fuel"
      using tmo by (simp add: distrib_right nat_less_iff)
    from rxLoop_returns [OF R _ this, of "cl_state c" "timeout c" rxFC dev 0 "(None, 0, None)"] ok obtain x where
      x: "rxLoop W (timeout c) (Some (t + timeout c)) rxFC dev fuel 0 (cl_state c, w2, None, 0, None) = Some x"
        "ends strict x (\<lambda>(cs', r). conn_ok strict cs')"
      by (auto simp: client_ok_def)
    have "ends strict (andThen x (\<lambda>r. Ret (finishRx ?c r))) (\<lambda>(c', w', pdu, a, err). client_ok strict c')"
      using x(2) by (rule ends_andThen) (use c in \<open>auto simp: finishRx_def Let_def split: if_splits\<close>)
    then show ?thesis using None x(1) unfolding eq by (simp add: Let_def)
  next
    case (Some y)
    then show ?thesis using c [of "cl_state c"] ok unfolding eq by (auto simp: client_ok_def)
  qed
qed

lemma readRequest_shape:
  assumes "length dst = 255"
  shows "\<exists>dst' n err. readRequest fc dst a q = Ret (dst', n, err) \<and> length dst' = 255 \<and> n \<le> 5"
  using assms by (auto simp: readRequest_def tx_unfold tx_simps)

lemma writeRequest_shape:
  assumes "length dst = 255"
  shows "\<exists>dst' n err. RequestWriteMultipleRegisters dst a regs = Ret (dst', n, err) \<and> length dst' = 255 \<and> n \<le> 252"
  using assms by (auto simp: tx_simps)

lemma readRegisters_returns:
  assumes R: "responsive W ck ph K" "strict \<longrightarrow> quiet_reader W" and ok: "client_ok strict c"
    and tmo: "0 < timeout c" "nat (timeout c) * (K + 1) \<le> fuel"
  shows "\<exists>x. readRegisters W fuel c w fc dev a regs = Some x \<and> ends strict x (\<lambda>(c', w', regs', err). client_ok strict c' \<and>
    length regs' = length regs \<and> (err \<noteq> None \<longrightarrow> regs' = regs))"
proof -
  obtain z r where zr: "cl_txbuf c = z # r" "length r = 255" using ok by (cases "cl_txbuf c") (auto simp: client_ok_def)
  obtain dst n err where rq: "readRequest fc r a (word_of_nat (length regs)) = Ret (dst, n, err)" "length dst = 255" "n \<le> 5"
    using readRequest_shape [OF zr(2)] by blast
  let ?c = "c\<lparr>cl_txbuf := dev # dst\<rparr>"
  have ok': "client_ok strict ?c" using ok rq(2) by (simp add: client_ok_def)
  have "3 \<le> n + 3" "n + 3 \<le> 256" "0 < timeout ?c" "nat (timeout ?c) * (K + 1) \<le> fuel" using rq(3) tmo by simp_all
  then obtain x where tr: "transaction W fuel ?c w fc dev (n + 3) = Some x"
      "ends strict x (\<lambda>(c', w', pdu, a, err). client_ok strict c')"
    using transaction_returns [OF R ok', of fuel "n + 3" w fc dev] by blast
  let ?f = "\<lambda>(c', w', pdu, b, e). if e \<noteq> None then Ret (c', w', regs, e)
    else (case ReceiveDataResponse (pduBytes (cl_state c') pdu) of (d, e') \<Rightarrow>
      if e' \<noteq> None then Ret (c', w', regs, e')
      else if length d \<noteq> length regs * 2 then Ret (c', w', regs, Some ErrWrongNumberOfRegisters)
      else andThen (getRegisters d [0..<length regs] regs) (\<lambda>regs. Ret (c', w', regs, None)))"
  have "\<not> muTx c" using ok by (simp add: client_ok_def)
  then have "readRegisters W fuel c w fc dev a regs =
      Some (if err \<noteq> None then Ret (?c, w, regs, err) else andThen x ?f)"
    using zr rq(1) tr(1) by (simp add: readRegisters_def store_def)
  moreover have "ends strict (andThen x ?f) (\<lambda>(c', w', regs', err). client_ok strict c' \<and>
      length regs' = length regs \<and> (err \<noteq> None \<longrightarrow> regs' = regs))"
    using tr(2) by (rule ends_andThen) (auto simp: getRegisters_all mult.commute split: prod.splits)
  ultimately show ?thesis using ok' by auto
qed

lemma WriteHoldingRegisters_returns:
  assumes R: "responsive W ck ph K" "strict \<longrightarrow> quiet_reader W" and ok: "client_ok strict c"
    and tmo: "0 < timeout c" "nat (timeout c) * (K + 1) \<le> fuel"
  shows "\<exists>x. WriteHoldingRegisters W fuel c w dev a regs = Some x \<and> ends strict x (\<lambda>(c', w', err). client_ok strict c')"
proof -
  obtain z r where zr: "cl_txbuf c = z # r" "length r = 255" using ok by (cases "cl_txbuf c") (auto simp: client_ok_def)
  obtain dst n err where rq: "RequestWriteMultipleRegisters r a regs = Ret (dst, n, err)" "length dst = 255" "n \<le> 252"
    using writeRequest_shape [OF zr(2)] by blast
  let ?c = "c\<lparr>cl_txbuf := dev # dst\<rparr>"
  have ok': "client_ok strict ?c" using ok rq(2) by (simp add: client_ok_def)
  have "3 \<le> n + 3" "n + 3 \<le> 256" "0 < timeout ?c" "nat (timeout ?c) * (K + 1) \<le> fuel" using rq(3) tmo by simp_all
  then obtain x where tr: "transaction W fuel ?c w FCWriteMultipleRegisters dev (n + 3) = Some x"
      "ends strict x (\<lambda>(c', w', pdu, a, err). client_ok strict c')"
    using transaction_returns [OF R ok', of fuel "n + 3" w FCWriteMultipleRegisters dev] by blast
  have "ends strict (andThen x (\<lambda>(c', w', pdu, b, e). Ret (c', w', e))) (\<lambda>(c', w', err). client_ok strict c')"
    using tr(2) by (rule ends_andThen) auto
  moreover have "\<not> muTx c" using ok by (simp add: client_ok_def)
  ultimately show ?thesis using zr rq(1) tr(1) ok' by (auto simp: WriteHoldingRegisters_def store_def)
qed

section \<open>Properties of the client\<close>

text \<open>
  C11. A client with a timeout always ends.  The port keeps the contract of \<open>io.Reader\<close>, its reads and
  writes return, and at most \<open>K\<close> readings of the clock in a row show the same time.  Then, whatever bytes and
  errors the port delivers, each method ends within \<open>K + 1\<close> turns of the receive loop for each nanosecond of
  its timeout.  It returns and leaves the client in a state from which this holds again, a failed read
  with the registers of the caller as they were; or it panics in \<open>read\<close>, called with nothing to read.  The
  panic needs a port that reports an error together with bytes, as \<open>io.Reader\<close> allows: if the port reports
  an error only when it has read nothing, and the receive buffer holds less than a whole packet at the start,
  the methods return without a panic.
\<close>

theorem client_always_returns:
  assumes "responsive W ck ph K" and "client_ok False c" and "0 < timeout c" and "nat (timeout c) * (K + 1) \<le> fuel"
  shows "(\<exists>x. ReadHoldingRegisters W fuel c w dev a regs = Some x \<and> (x = Panic ''read 0'' \<or>
      (\<exists>c' w' regs' err. x = Ret (c', w', regs', err) \<and> client_ok False c' \<and>
        length regs' = length regs \<and> (err \<noteq> None \<longrightarrow> regs' = regs)))) \<and>
    (\<exists>x. ReadInputRegisters W fuel c w dev a regs = Some x \<and> (x = Panic ''read 0'' \<or>
      (\<exists>c' w' regs' err. x = Ret (c', w', regs', err) \<and> client_ok False c' \<and>
        length regs' = length regs \<and> (err \<noteq> None \<longrightarrow> regs' = regs)))) \<and>
    (\<exists>x. WriteHoldingRegisters W fuel c w dev a regs = Some x \<and> (x = Panic ''read 0'' \<or>
      (\<exists>c' w' err. x = Ret (c', w', err) \<and> client_ok False c'))) \<and>
    (quiet_reader W \<and> client_ok True c \<longrightarrow>
      (\<exists>c' w' regs' err. ReadHoldingRegisters W fuel c w dev a regs = Some (Ret (c', w', regs', err)) \<and> client_ok True c' \<and>
        length regs' = length regs \<and> (err \<noteq> None \<longrightarrow> regs' = regs)) \<and>
      (\<exists>c' w' regs' err. ReadInputRegisters W fuel c w dev a regs = Some (Ret (c', w', regs', err)) \<and> client_ok True c' \<and>
        length regs' = length regs \<and> (err \<noteq> None \<longrightarrow> regs' = regs)) \<and>
      (\<exists>c' w' err. WriteHoldingRegisters W fuel c w dev a regs = Some (Ret (c', w', err)) \<and> client_ok True c'))"
proof -
  have "\<exists>x. readRegisters W fuel c w fc dev a regs = Some x \<and> (x = Panic ''read 0'' \<or>
      (\<exists>c' w' regs' err. x = Ret (c', w', regs', err) \<and> client_ok False c' \<and>
        length regs' = length regs \<and> (err \<noteq> None \<longrightarrow> regs' = regs)))" for fc
    using readRegisters_returns [OF assms(1) _ assms(2-4), of w fc dev a regs] by (auto simp: ends_def)
  moreover have "\<exists>x. WriteHoldingRegisters W fuel c w dev a regs = Some x \<and> (x = Panic ''read 0'' \<or>
      (\<exists>c' w' err. x = Ret (c', w', err) \<and> client_ok False c'))"
    using WriteHoldingRegisters_returns [OF assms(1) _ assms(2-4), of w dev a regs] by (auto simp: ends_def)
  moreover have "\<exists>c' w' regs' err. readRegisters W fuel c w fc dev a regs = Some (Ret (c', w', regs', err)) \<and> client_ok True c' \<and>
      length regs' = length regs \<and> (err \<noteq> None \<longrightarrow> regs' = regs)" if "quiet_reader W" "client_ok True c" for fc
    using readRegisters_returns [OF assms(1) _ that(2) assms(3,4), of w fc dev a regs] that(1) by (auto simp: ends_def)
  moreover have "\<exists>c' w' err. WriteHoldingRegisters W fuel c w dev a regs = Some (Ret (c', w', err)) \<and> client_ok True c'"
    if "quiet_reader W" "client_ok True c"
    using WriteHoldingRegisters_returns [OF assms(1) _ that(2) assms(3,4), of w dev a regs] that(1) by (auto simp: ends_def)
  ultimately show ?thesis unfolding ReadHoldingRegisters_def ReadInputRegisters_def by blast
qed

text \<open>A silent port, whose reads time out, and a client with a timeout, for examples.\<close>

definition silentWorld :: "(unit, int) World" where
  "silentWorld = \<lparr>portRead = \<lambda>h w p. Ret (w + 1000, p, 0, Some (ErrForeign ''timeout'')),
     portWrite = \<lambda>h w p. Ret (w, int (length p), None), timeNow = \<lambda>w. (w + 1, w), timeSleep = \<lambda>w d. w + max 0 d\<rparr>"

lemma silentWorld_responsive: "responsive silentWorld (\<lambda>w. w) (\<lambda>w. 0) 0" "quiet_reader silentWorld"
  by (auto simp: responsive_def silentWorld_def reader_contract_def quiet_reader_def ticking_def)

definition waitingClient :: "(unit, unit, 'w) Client" where
  "waitingClient = \<lparr>cl_state = zeroConn\<lparr>port := Some ()\<rparr>, muTx = False, cl_txbuf = replicate 256 0, timeout = 100\<rparr>"

lemma waitingClient_ok: "client_ok strict waitingClient" "timeout waitingClient = 100"
  by (simp_all add: waitingClient_def client_ok_def conn_ok_def zeroConn_def rx_ok_def pending_def buffered_def awaiting_def)

theorem client_always_returns_witness:
  "\<exists>c' w' regs' err. ReadHoldingRegisters silentWorld 100 waitingClient 0 17 7 [1, 2] = Some (Ret (c', w', regs', err)) \<and> client_ok True c'"
  using client_always_returns [OF silentWorld_responsive(1) waitingClient_ok(1), of 100 0 17 7 "[1, 2]"]
  by (auto simp: waitingClient_ok silentWorld_responsive(2))

text \<open>
  C35. Frames that do not answer the request are skipped: with up to four frames of other devices or with other
  function codes before it, the answer is still delivered with its PDU, and what follows it stays on the line.
\<close>

theorem client_skips_other_frames:
  assumes "line_reads W h inb obs" and "\<forall>w d. inb (timeSleep W w d) = inb w" and "ready c h"
    and "n = length req + 3" and "n \<le> 256" and "take (length req + 1) (cl_txbuf c) = b # req"
    and "portWrite W h w (rtu_frame b req) = Ret (w1, k, None)"
    and "inb w1 = concat (map (\<lambda>f. rtu_frame (fst f) (snd f)) fs) @ rtu_frame a pdu @ rest"
    and "list_all (discarded rxFC dev) fs" and "length fs < 5"
    and "response_pdu pdu" and "rxFC = 0 \<or> rxFC = hd pdu" and "dev = 0 \<or> dev = a"
  shows "\<exists>c' w'. transaction W (2 + 2 * length fs) c w rxFC dev n = Some (Ret (c', w', Some (1, length pdu), a, None)) \<and>
    ready c' h \<and> rxSlice (cl_state c') 1 (length pdu) = pdu \<and> inb w' = rest"
proof -
  have "length fs \<le> 5" using assms(10) by simp
  from transaction_discards [OF assms(1-9) this] obtain c1 w2 a' where
    t: "\<And>m x. rxLoop W (timeout c) None rxFC dev m (length fs) (cl_state c1, w2, None, a', None) = Some (Ret x) \<Longrightarrow>
        transaction W (m + 2 * length fs) c w rxFC dev n = Some (Ret (finishRx c1 x))"
      "ready c1 h" "inb w2 = rtu_frame a pdu @ rest"
    by blast
  from rxLoop_response [OF assms(1) ready_conn [OF t(2)] t(3) assms(11-13,10), of "timeout c" 0] obtain cs' w' where
    r: "rxLoop W (timeout c) None rxFC dev 2 (length fs) (cl_state c1, w2, None, a', None) = Some (Ret (cs', w', Some (1, length pdu), a, None))"
      "rx_ok cs'" "same_conn (cl_state c1) cs'" "dataStart cs' = dataEnd cs'" "rxSlice cs' 1 (length pdu) = pdu" "inb w' = rest"
    unfolding numeral_2_eq_2 by blast
  show ?thesis
    using t(1) [OF r(1)] ready_after_rx [OF t(2) r(3,2,4)] r(5,6) by (simp add: finishRx_def Let_def)
qed

theorem client_skips_other_frames_witness:
  "\<exists>c' w'. transaction lineWorld 4 (demoClient\<lparr>cl_txbuf := [17, 3, 0, 7, 0, 1] @ replicate 250 0\<rparr>)
      \<lparr>inbox = rtu_frame 9 [3, 2, 5, 5] @ rtu_frame 17 [3, 2, 0xab, 0xcd], outbox = [], clock = 0\<rparr> 3 17 8 =
    Some (Ret (c', w', Some (1, 4), 17, None)) \<and> rxSlice (cl_state c') 1 4 = [3, 2, 0xab, 0xcd]"
proof -
  let ?c = "demoClient\<lparr>cl_txbuf := [17, 3, 0, 7, 0, 1] @ replicate 250 0\<rparr> :: (unit, unit, Line) Client"
  let ?w = "\<lparr>inbox = rtu_frame 9 [3, 2, 5, 5] @ rtu_frame 17 [3, 2, 0xab, 0xcd], outbox = [], clock = 0\<rparr>"
  have four: "Suc (Suc (Suc (Suc 0))) = 4" by simp
  have d: "response_pdu [3, 2, x, y]" for x y unfolding response_pdu_def by (rule disjI1) (auto intro!: exI [of _ "[x, y]"])
  have "ready ?c ()" by (simp add: ready_def demoClient_def zeroConn_def rx_ok_def)
  moreover have "\<exists>k. portWrite lineWorld () ?w (rtu_frame 17 [3, 0, 7, 0, 1]) = Ret (?w\<lparr>outbox := rtu_frame 17 [3, 0, 7, 0, 1]\<rparr>, k, None)"
    by (simp add: lineWorld_def)
  moreover have "\<forall>w d. inbox (timeSleep lineWorld w d) = inbox w" by (simp add: lineWorld_def)
  ultimately show ?thesis
    using client_skips_other_frames [OF lineWorld_reads, of ?c "()" 8 "[3, 0, 7, 0, 1]" 17 ?w "?w\<lparr>outbox := rtu_frame 17 [3, 0, 7, 0, 1]\<rparr>" _
        "[(9, [3, 2, 5, 5])]" 17 "[3, 2, 0xab, 0xcd]" "[]" 3 17] d four
    by (auto simp: discarded_def)
qed

text \<open>
  C36. An exception of the device is never reported: its function code has the top bit set and does not pass the
  filter, so five exception frames end the transaction with a timeout error, whatever exceptions they carry.
\<close>

theorem client_exceptions_time_out:
  assumes "line_reads W h inb obs" and "\<forall>w d. inb (timeSleep W w d) = inb w" and "ready c h"
    and "n = length req + 3" and "n \<le> 256" and "take (length req + 1) (cl_txbuf c) = b # req"
    and "portWrite W h w (rtu_frame b req) = Ret (w1, k, None)"
    and "inb w1 = concat (map (\<lambda>e. rtu_frame dev [fc OR 0x80, e]) es) @ rest" and "length es = 5"
    and "fc = FCReadHoldingRegisters \<or> fc = FCReadInputRegisters \<or> fc = FCWriteMultipleRegisters"
  shows "\<exists>c' w'. transaction W 11 c w fc dev n = Some (Ret (c', w', None, 0, Some ErrTimeout)) \<and> ready c' h \<and> inb w' = rest"
proof -
  let ?fs = "map (\<lambda>e. (dev, [fc OR 0x80, e])) es"
  have "(fc OR 0x80) AND 0x80 \<noteq> 0" "fc \<noteq> fc OR 0x80" "fc \<noteq> 0" using assms(10) by auto
  then have d: "list_all (discarded fc dev) ?fs" by (auto simp: discarded_def response_pdu_def list_all_iff)
  have inb: "inb w1 = concat (map (\<lambda>f. rtu_frame (fst f) (snd f)) ?fs) @ rest" using assms(8) by (simp add: comp_def)
  have five: "length ?fs \<le> 5" "length ?fs = 5" using assms(9) by simp_all
  from transaction_discards [OF assms(1-7) inb d five(1)] obtain c1 w2 a' where
    t: "\<And>m x. rxLoop W (timeout c) None fc dev m 5 (cl_state c1, w2, None, a', None) = Some (Ret x) \<Longrightarrow>
        transaction W (m + 2 * 5) c w fc dev n = Some (Ret (finishRx c1 x))"
      "ready c1 h" "inb w2 = rest"
    unfolding five(2) by blast
  have "rxLoop W (timeout c) None fc dev 1 5 (cl_state c1, w2, None, a', None) = Some (Ret (cl_state c1, w2, None, a', None))"
    by (simp add: pastDeadline_def)
  from t(1) [OF this] t(2,3) show ?thesis by (simp add: finishRx_def)
qed

theorem client_exceptions_time_out_witness:
  "\<exists>c' w'. transaction lineWorld 11 (demoClient\<lparr>cl_txbuf := [17, 3, 0, 7, 0, 1] @ replicate 250 0\<rparr>)
      \<lparr>inbox = concat (map (\<lambda>e. rtu_frame 17 [3 OR 0x80, e]) [2, 2, 2, 2, 2]), outbox = [], clock = 0\<rparr> 3 17 8 =
    Some (Ret (c', w', None, 0, Some ErrTimeout))"
proof -
  let ?c = "demoClient\<lparr>cl_txbuf := [17, 3, 0, 7, 0, 1] @ replicate 250 0\<rparr> :: (unit, unit, Line) Client"
  let ?w = "\<lparr>inbox = concat (map (\<lambda>e. rtu_frame 17 [3 OR 0x80, e]) [2, 2, 2, 2, 2]), outbox = [], clock = 0\<rparr>"
  have "ready ?c ()" by (simp add: ready_def demoClient_def zeroConn_def rx_ok_def)
  moreover have "\<exists>k. portWrite lineWorld () ?w (rtu_frame 17 [3, 0, 7, 0, 1]) = Ret (?w\<lparr>outbox := rtu_frame 17 [3, 0, 7, 0, 1]\<rparr>, k, None)"
    by (simp add: lineWorld_def)
  moreover have "\<forall>w d. inbox (timeSleep lineWorld w d) = inbox w" by (simp add: lineWorld_def)
  ultimately show ?thesis
    using client_exceptions_time_out [OF lineWorld_reads, of ?c "()" 8 "[3, 0, 7, 0, 1]" 17 ?w "?w\<lparr>outbox := rtu_frame 17 [3, 0, 7, 0, 1]\<rparr>" _
        17 3 "[2, 2, 2, 2, 2]" "[]"]
    by auto
qed

text \<open>
  C37. Counts that the protocol does not allow are refused before anything is sent: a read of no or of more than
  125 registers, counted modulo 65536 as the code does, and a write of no or of more than 123 registers return
  the error of the marshalling method, and the world is as before.
\<close>

theorem client_refuses_counts:
  assumes "\<not> muTx c" and "length (cl_txbuf c) = 256"
    and "length regs mod 65536 = 0 \<or> 125 < length regs mod 65536" and "rs = [] \<or> 123 < length rs"
  shows "(\<exists>c'. ReadHoldingRegisters W fuel c w dev a regs = Some (Ret (c', w, regs, Some ErrRegisterOOB)) \<and> cl_state c' = cl_state c) \<and>
    (\<exists>c'. ReadInputRegisters W fuel c w dev a regs = Some (Ret (c', w, regs, Some ErrRegisterOOB)) \<and> cl_state c' = cl_state c) \<and>
    (\<exists>c'. WriteHoldingRegisters W fuel c w dev a rs = Some (Ret (c', w, Some ErrRegisterOOB)) \<and> cl_state c' = cl_state c)"
proof -
  obtain x r where xr: "cl_txbuf c = x # r" "length r = 255" using assms(2) by (cases "cl_txbuf c") auto
  let ?q = "word_of_nat (length regs) :: uint16"
  have "unat ?q = length regs mod 65536" by (simp add: unat_of_nat)
  then have "?q > 125 \<or> ?q = 0" using assms(3) by (auto simp: word_less_nat_alt unat_eq_0 [symmetric])
  then have "readRequest FCReadHoldingRegisters r a ?q = Ret (r, 0, Some ErrRegisterOOB)"
      "readRequest FCReadInputRegisters r a ?q = Ret (r, 0, Some ErrRegisterOOB)"
    by (auto simp: readRequest_def tx_unfold)
  moreover have "RequestWriteMultipleRegisters r a rs = Ret (r, 0, Some ErrRegisterOOB)"
    using assms(4) by (auto simp: tx_simps)
  ultimately show ?thesis
    using assms(1) xr
    by (simp add: ReadHoldingRegisters_def ReadInputRegisters_def WriteHoldingRegisters_def readRegisters_def store_def)
qed

theorem client_refuses_counts_witness:
  "\<exists>c'. ReadHoldingRegisters lineWorld 1 demoClient \<lparr>inbox = [], outbox = [], clock = 0\<rparr> 17 0 (replicate 126 0) =
     Some (Ret (c', \<lparr>inbox = [], outbox = [], clock = 0\<rparr>, replicate 126 0, Some ErrRegisterOOB))"
  using client_refuses_counts [of "demoClient :: (unit, unit, Line) Client" "replicate 126 0" "[]" lineWorld 1 "\<lparr>inbox = [], outbox = [], clock = 0\<rparr>" 17 0]
  by (auto simp: demoClient_def)

end
