(* ===== verification/Mbap.thy ===== *)
theory Mbap
  imports Definitions
begin

text \<open>
  The MBAP header of \<open>src/modbustcp/server.go\<close>: \<open>applicationHeader\<close> with its decoding and its two encodings.
\<close>

section \<open>The header\<close>

record applicationHeader =
  Transaction :: uint16
  Protocol :: uint16
  Length :: uint16
  Unit :: uint8

definition mbapSize :: nat where
  "mbapSize = 7"

text \<open>The zero value, returned with every error.\<close>

definition zeroHeader :: applicationHeader where
  "zeroHeader = \<lparr>Transaction = 0, Protocol = 0, Length = 0, Unit = 0\<rparr>"

definition decodeMBAP :: "byte list \<Rightarrow> (applicationHeader \<times> goerror option) outcome" where
  "decodeMBAP buf =
    (if length buf < mbapSize then Ret (zeroHeader, Some ErrShortBuffer)
     else
       andThen (Uint16 buf 2) (\<lambda>protocol.
       if protocol \<noteq> 0 then Ret (zeroHeader, Some (ErrMBAPProtocol protocol))
       else
         andThen (Uint16 buf 0) (\<lambda>transaction.
         andThen (Uint16 buf 4) (\<lambda>len.
         andThen (index buf 6) (\<lambda>unit.
           Ret (\<lparr>Transaction = transaction, Protocol = protocol, Length = len, Unit = unit\<rparr>, None))))))"

definition applicationHeader_Put :: "applicationHeader \<Rightarrow> byte list \<Rightarrow> (byte list \<times> goerror option) outcome" where
  "applicationHeader_Put ap buf =
    (if length buf < 7 then Ret (buf, Some ErrShortBuffer)
     else
       andThen (PutUint16 buf 0 (Transaction ap)) (\<lambda>buf.
       andThen (PutUint16 buf 2 (Protocol ap)) (\<lambda>buf.
       andThen (PutUint16 buf 4 (Length ap)) (\<lambda>buf.
       andThen (store buf 6 (Unit ap)) (\<lambda>buf. Ret (buf, None))))))"

text \<open>\<open>write\<close> is the \<open>Write\<close> method of the writer; the error of \<open>Put\<close> is not looked at.\<close>

definition applicationHeader_Encode :: "applicationHeader \<Rightarrow> ('w \<Rightarrow> byte list \<Rightarrow> ('w \<times> int \<times> goerror option) outcome) \<Rightarrow> 'w \<Rightarrow>
    ('w \<times> int \<times> goerror option) outcome" where
  "applicationHeader_Encode ap write w =
    (if Length ap < 2 \<or> Length ap > 256 then Ret (w, 0, Some ErrEncodeLength)
     else if Protocol ap \<noteq> 0 then Ret (w, 0, Some ErrEncodeProtocol)
     else andThen (applicationHeader_Put ap (replicate 7 0)) (\<lambda>(buf, err). write w buf))"

section \<open>Lemmas\<close>

definition header_bytes :: "applicationHeader \<Rightarrow> byte list" where
  "header_bytes ap = [hi8 (Transaction ap), lo8 (Transaction ap), hi8 (Protocol ap), lo8 (Protocol ap),
     hi8 (Length ap), lo8 (Length ap), Unit ap]"

lemma length_header_bytes [simp]: "length (header_bytes ap) = 7"
  by (simp add: header_bytes_def)

lemma seven_le_length: "7 \<le> length xs \<Longrightarrow> \<exists>a b c d e f g r. xs = a # b # c # d # e # f # g # r"
  by (auto simp: Suc_le_length_iff numeral_eq_Suc)

lemma Put_eq:
  "7 \<le> length buf \<Longrightarrow> applicationHeader_Put ap buf = Ret (header_bytes ap @ drop 7 buf, None)"
  by (drule seven_le_length) (auto simp: applicationHeader_Put_def PutUint16_def store_def header_bytes_def)

lemma decodeMBAP_bytes:
  "decodeMBAP (header_bytes ap @ xs) =
    (if Protocol ap = 0 then Ret (ap, None) else Ret (zeroHeader, Some (ErrMBAPProtocol (Protocol ap))))"
  by (auto simp: decodeMBAP_def mbapSize_def Uint16_def index_def header_bytes_def)

lemma header_of_bytes:
  assumes "7 \<le> length buf"
  obtains ap where "buf = header_bytes ap @ drop 7 buf"
proof -
  obtain a b c d e f g r where buf: "buf = a # b # c # d # e # f # g # r" using seven_le_length [OF assms] by blast
  show ?thesis
    by (rule that [of "\<lparr>Transaction = be16 a b, Protocol = be16 c d, Length = be16 e f, Unit = g\<rparr>"]) (simp add: header_bytes_def buf)
qed

section \<open>Properties\<close>

text \<open>
  C20. The MBAP header round-trips: decoding what \<open>Put\<close> wrote gives the header back when its protocol is 0 and
  otherwise reports that protocol; conversely every seven bytes that decode without error are what \<open>Put\<close> writes
  for the decoded header; and \<open>Encode\<close> hands exactly these bytes to the writer for the lengths 2 to 256 of
  protocol 0 and writes nothing otherwise.
\<close>

theorem mbap_roundtrip:
  "(\<exists>b. applicationHeader_Put ap (replicate 7 0) = Ret (b, None) \<and> length b = 7 \<and>
      decodeMBAP b = (if Protocol ap = 0 then Ret (ap, None) else Ret (zeroHeader, Some (ErrMBAPProtocol (Protocol ap)))) \<and>
      applicationHeader_Encode ap write w =
        (if 2 \<le> unat (Length ap) \<and> unat (Length ap) \<le> 256 \<and> Protocol ap = 0 then write w b
         else if Length ap < 2 \<or> 256 < Length ap then Ret (w, 0, Some ErrEncodeLength) else Ret (w, 0, Some ErrEncodeProtocol))) \<and>
    (length buf = 7 \<and> decodeMBAP buf = Ret (ap', None) \<longrightarrow> applicationHeader_Put ap' (replicate 7 0) = Ret (buf, None))"
proof -
  have put: "applicationHeader_Put h (replicate 7 0) = Ret (header_bytes h, None)" for h by (simp add: Put_eq)
  have "applicationHeader_Put ap' (replicate 7 0) = Ret (buf, None)" if "length buf = 7" "decodeMBAP buf = Ret (ap', None)"
  proof -
    obtain h where "buf = header_bytes h @ drop 7 buf" using header_of_bytes [of buf] \<open>length buf = 7\<close> by auto
    then have "buf = header_bytes h @ []" using \<open>length buf = 7\<close> by simp
    then show ?thesis using that(2) put [of h] decodeMBAP_bytes [of h "[]"] by (auto split: if_splits)
  qed
  moreover have "Length ap < 2 \<longleftrightarrow> unat (Length ap) < 2" "256 < Length ap \<longleftrightarrow> 256 < unat (Length ap)"
    by (simp_all add: word_less_nat_alt)
  ultimately show ?thesis using decodeMBAP_bytes [of ap "[]"] by (auto simp: put applicationHeader_Encode_def)
qed

theorem mbap_roundtrip_witness:
  "applicationHeader_Put \<lparr>Transaction = 0x0102, Protocol = 0, Length = 6, Unit = 17\<rparr> (replicate 7 0) = Ret ([1, 2, 0, 0, 0, 6, 17], None)"
proof -
  have "decodeMBAP [1, 2, 0, 0, 0, 6, 17] = Ret (\<lparr>Transaction = 0x0102, Protocol = 0, Length = 6, Unit = 17\<rparr>, None)"
    by (simp add: decodeMBAP_def mbapSize_def Uint16_def index_def be16_def)
  then show ?thesis
    using mbap_roundtrip [where buf = "[1, 2, 0, 0, 0, 6, 17]" and ap' = "\<lparr>Transaction = 0x0102, Protocol = 0, Length = 6, Unit = 17\<rparr>",
        THEN conjunct2]
    by simp
qed

end
