(* ===== verification/Response_Invariant.thy ===== *)
theory Response_Invariant
  imports Put_Response
begin

text \<open>
  What \<open>PutResponse\<close> keeps for every request and every data: the invariant of the data model with its locks
  free, and the lengths of both slices.
\<close>

section \<open>Access to the model\<close>

lemma putBit_length: "putBit dst i b = Ret dst' \<Longrightarrow> length dst' = length dst"
  by (auto simp: putBit_def andThen_eq_Ret index_def store_def split: if_splits)

lemma PutUint16_length: "PutUint16 b off v = Ret b' \<Longrightarrow> length b' = length b"
  by (auto simp: PutUint16_def split: if_splits)

lemma readStep_keeps:
  assumes "dm_ok m" and "readStep I fc s i m d = Ret (m', d', e)"
  shows "m' = m \<and> length d' = length d"
  using assms
  by (auto simp: readStep_def Let_def andThen_eq_Ret holding.get_eq inputs.get_eq coil.get_eq discrete.get_eq
      dest: putBit_length PutUint16_length split: if_splits)

lemma readLoop_keeps:
  assumes "dm_ok m" and "readLoop I fc s q i m d e = Ret (m', d', e')"
  shows "m' = m \<and> length d' = length d"
  using assms
proof (induction "unat q - unat i" arbitrary: i d e)
  case 0
  then have "\<not> i < q" by (simp add: word_less_nat_alt)
  then show ?case using "0.prems" by (subst (asm) readLoop.simps) simp
next
  case (Suc n)
  show ?case
  proof (cases "e = ExceptionNone \<and> i < q")
    case True
    with Suc.prems(2) obtain m1 d1 e1 where st: "readStep I fc s i m d = Ret (m1, d1, e1)"
      and rest: "readLoop I fc s q (i + 1) m1 d1 e1 = Ret (m', d', e')"
      by (subst (asm) readLoop.simps) (auto simp: andThen_eq_Ret)
    have "n = unat q - unat (i + 1)" using Suc.hyps(2) True unat_Suc_below [of i q] by simp
    with Suc.hyps(1) [OF this] readStep_keeps [OF Suc.prems(1) st] rest Suc.prems(1) show ?thesis by auto
  next
    case False
    then show ?thesis using Suc.prems by (subst (asm) readLoop.simps) auto
  qed
qed

lemma readFromModel_keeps:
  assumes "dm_ok dm" and "readFromModel I dst dm fc s q = Ret (dm', dst', e)"
  shows "dm' = dm \<and> length dst' = length dst"
  using assms by (auto simp: readFromModel_def Let_def andThen_eq_Ret dest!: readLoop_keeps [rotated])

lemma set_keeps:
  assumes "dm_ok m"
  shows "SetHoldingRegister I m j v = Ret (m', e) \<Longrightarrow> dm_ok m'" and "SetCoil I m j b = Ret (m', e) \<Longrightarrow> dm_ok m'"
  using holding.set_total [OF assms, of I j v] coil.set_total [OF assms, of I j b] by auto

lemma writeStep_keeps:
  assumes "dm_ok m" and "writeStep I fc s d i m = Ret (m', e)"
  shows "dm_ok m'"
  using assms by (auto simp: writeStep_def Let_def andThen_eq_Ret dest: set_keeps split: if_splits)

lemma writeLoop_keeps:
  assumes "dm_ok m" and "writeLoop I fc s q d i m e = Ret (m', e')"
  shows "dm_ok m'"
  using assms
proof (induction "unat q - unat i" arbitrary: i m e)
  case 0
  then have "\<not> i < q" by (simp add: word_less_nat_alt)
  then show ?case using "0.prems" by (subst (asm) writeLoop.simps) simp
next
  case (Suc n)
  show ?case
  proof (cases "e = ExceptionNone \<and> i < q")
    case True
    with Suc.prems(2) obtain m1 e1 where st: "writeStep I fc s d i m = Ret (m1, e1)"
      and rest: "writeLoop I fc s q d (i + 1) m1 e1 = Ret (m', e')"
      by (subst (asm) writeLoop.simps) (auto simp: andThen_eq_Ret)
    have "n = unat q - unat (i + 1)" using Suc.hyps(2) True unat_Suc_below [of i q] by simp
    from Suc.hyps(1) [OF this writeStep_keeps [OF Suc.prems(1) st] rest] show ?thesis .
  next
    case False
    then show ?thesis using Suc.prems by (subst (asm) writeLoop.simps) auto
  qed
qed

lemma writeToModel_keeps:
  assumes "dm_ok dm" and "writeToModel I dm fc s q d = Ret (dm', e)"
  shows "dm_ok dm'"
  using assms by (auto simp: writeToModel_def Let_def andThen_eq_Ret dest!: writeLoop_keeps [rotated])

section \<open>PutResponse\<close>

lemma accessModel_keeps:
  assumes "dm_ok dm" and "accessModel I req dm data rd = Ret (dm', rd', e)"
  shows "dm_ok dm' \<and> length rd' = length rd"
  using assms
  by (auto simp: accessModel_def Let_def andThen_eq_Ret dest: writeToModel_keeps readFromModel_keeps split: if_splits)

lemma putNominal_keeps:
  assumes "putNominal req dst rd = Ret (dst', n, err)"
  shows "length dst' = length dst \<and> n \<le> length dst"
  using assms
  by (auto simp: putNominal_def Let_def tx_unfold tx_simps split: if_splits)

lemma PutResponse_keeps:
  assumes "dm_ok dm" and "PutResponse I req dm dst data = Ret (dm', dst', data', n, err)"
  shows "dm_ok dm' \<and> length dst' = length dst \<and> length data' = length data \<and> (err = None \<longrightarrow> n \<le> length dst)"
proof -
  from assms(2) obtain rd where rd: "sub data 2 (uint (2 + quantityBytes req)) = Ret rd" by (auto simp: PutResponse_def andThen_eq_Ret)
  with assms(2) obtain rd' exc where acc: "accessModel I req dm data rd = Ret (dm', rd', exc)"
    and data': "data' = overwrite 2 rd' data"
    and rest: "exc \<noteq> ExceptionNone \<and> err \<noteq> None \<and> (dst' = dst \<or> Exception_PutResponse exc dst (FC req) = Ret dst') \<or>
      putNominal req dst rd' = Ret (dst', n, err)"
    by (auto simp: PutResponse_def andThen_eq_Ret Let_def split: if_splits)
  note keeps = accessModel_keeps [OF assms(1) acc]
  have "length rd = nat (uint (2 + quantityBytes req) - 2)" "2 \<le> uint (2 + quantityBytes req)" "uint (2 + quantityBytes req) \<le> int (length data)"
    using rd by (auto simp: sub_eq_Ret)
  then have "2 + length rd \<le> length data" by linarith
  then have "length data' = length data" using keeps data' by simp
  moreover have "length dst' = length dst \<and> (err = None \<longrightarrow> n \<le> length dst)"
    using rest putNominal_keeps by (fastforce simp: Exception_PutResponse_def andThen_eq_Ret store_def split: if_splits)
  ultimately show ?thesis using keeps by simp
qed

section \<open>Properties\<close>

text \<open>
  C16. Whatever the request and the data, when \<open>PutResponse\<close> returns the data model has kept its invariant, all
  tables at their sizes and every lock free, the response and the request slices have kept their lengths, and a
  response without error lies within the response slice.
\<close>

theorem putresponse_keeps_types:
  assumes "dm_ok dm" and "PutResponse I req dm dst data = Ret (dm', dst', data', n, err)"
  shows "dm_ok dm' \<and> length dst' = length dst \<and> length data' = length data \<and> (err = None \<longrightarrow> n \<le> length dst)"
  by (rule PutResponse_keeps [OF assms])

theorem putresponse_keeps_types_witness:
  "\<exists>dm' dst' data'. PutResponse noTables (read_request FCReadHoldingRegisters 7 2) freshModel (replicate 9 0) (replicate 8 0) =
      Ret (dm', dst', data', 6, None) \<and> dm_ok dm' \<and> length dst' = 9 \<and> length data' = 8"
proof -
  have "dm_ok freshModel" by simp
  moreover obtain dm' dst' data' where "PutResponse noTables (read_request FCReadHoldingRegisters 7 2) freshModel (replicate 9 0) (replicate 8 0) =
      Ret (dm', dst', data', 6, None)"
    using putresponse_registers [of freshModel FCReadHoldingRegisters 2 7 "replicate 8 0" "replicate 9 0" noTables] by simp
  ultimately show ?thesis using putresponse_keeps_types by fastforce
qed

end
