(* ===== verification/Tcp_Server.thy ===== *)
theory Tcp_Server
  imports Mbap Response_Invariant
begin

text \<open>
  \<open>src/modbustcp/tcpstate.go\<close> and the server of \<open>src/modbustcp/server.go\<close>.  The network is the parameter \<open>N\<close>,
  whose state \<open>w\<close> is passed through; a listener and a connection are handles.  The loop of \<open>io.ReadFull\<close> takes fuel,
  and \<open>None\<close> is a call that has not returned.
\<close>

section \<open>The network\<close>

text \<open>
  Addresses, listeners and connections are those of package \<open>net\<close>; \<open>parseAddrPort\<close> is \<open>netip.ParseAddrPort\<close> followed by
  \<open>net.TCPAddrFromAddrPort\<close>.  The deadline \<open>None\<close> is the zero time, which removes the deadline.
\<close>

record ('a, 'l, 'c, 'w) Net =
  parseAddrPort :: "string \<Rightarrow> goerror + 'a"
  zeroTCPAddr :: 'a
  listenTCP :: "'a \<Rightarrow> 'w \<Rightarrow> 'w \<times> (goerror + 'l)"
  listenerSetDeadline :: "'l \<Rightarrow> 'w \<Rightarrow> int option \<Rightarrow> 'w"
  acceptTCP :: "'l \<Rightarrow> 'w \<Rightarrow> ('w \<times> (goerror + 'c)) outcome"
  listenerClose :: "'l \<Rightarrow> 'w \<Rightarrow> 'w"
  listenerAddr :: "'l \<Rightarrow> 'w \<Rightarrow> 'a"
  connRead :: "'c \<Rightarrow> 'w \<Rightarrow> byte list \<Rightarrow> ('w \<times> byte list \<times> int \<times> goerror option) outcome"
  connWrite :: "'c \<Rightarrow> 'w \<Rightarrow> byte list \<Rightarrow> ('w \<times> int \<times> goerror option) outcome"
  netNow :: "'w \<Rightarrow> 'w \<times> int"

section \<open>The state of the server\<close>

record ('s, 'l, 'c) serverState =
  st_mu :: bool
  lastMBAP :: applicationHeader
  listener :: "'l option"
  conn :: "'c option"
  st_data :: "'s DataModel option"
  st_closeErr :: "goerror option"

definition serverState_Err :: "('s, 'l, 'c) serverState \<Rightarrow> goerror option outcome" where
  "serverState_Err cs = (if st_mu cs then Blocks else Ret (st_closeErr cs))"

text \<open>Closing a nil listener returns an error, which is not looked at.\<close>

definition CloseConn :: "('a, 'l, 'c, 'w) Net \<Rightarrow> ('s, 'l, 'c) serverState \<Rightarrow> 'w \<Rightarrow> goerror option \<Rightarrow>
    (('s, 'l, 'c) serverState \<times> 'w) outcome" where
  "CloseConn N cs w err =
    (if err = None then Panic ''cannot close connection with nil error''
     else if st_mu cs then Blocks
     else Ret (cs\<lparr>st_closeErr := err\<rparr>, case listener cs of None \<Rightarrow> w | Some l \<Rightarrow> listenerClose N l w))"

definition serverState_IsConnected :: "('s, 'l, 'c) serverState \<Rightarrow> bool outcome" where
  "serverState_IsConnected cs = andThen (serverState_Err cs) (\<lambda>e. Ret (e = None))"

section \<open>The server\<close>

record ('s, 'a, 'l, 'c) Server_tcp =
  tcp_state :: "('s, 'l, 'c) serverState"
  tcpTimeout :: int
  tcp_address :: 'a
  tcp_txBuf :: "byte list"
  tcp_rxbuf :: "byte list"

record 's ServerConfig_tcp =
  tcp_Address :: string
  ConnectTimeout :: int
  tcp_DataModel :: "'s DataModel option"

text \<open>\<open>strings.Replace(s, old, new, 1)\<close> for a non-empty \<open>old\<close>.\<close>

fun replaceFirst :: "string \<Rightarrow> string \<Rightarrow> string \<Rightarrow> string" where
  "replaceFirst [] old new = []"
| "replaceFirst (c # s) old new =
    (if take (length old) (c # s) = old then new @ drop (length old) (c # s) else c # replaceFirst s old new)"

definition NewServer_tcp :: "('a, 'l, 'c, 'w) Net \<Rightarrow> 's ServerConfig_tcp \<Rightarrow> goerror + ('s, 'a, 'l, 'c) Server_tcp" where
  "NewServer_tcp N cfg =
    (let dm = (case tcp_DataModel cfg of None \<Rightarrow> BlockedDM zeroBlockedModel | Some dm \<Rightarrow> dm) in
     case parseAddrPort N (replaceFirst (tcp_Address cfg) ''localhost'' ''127.0.0.1'') of
       Inl err \<Rightarrow> Inl err
     | Inr address \<Rightarrow>
         Inr \<lparr>tcp_state = \<lparr>st_mu = False, lastMBAP = zeroHeader, listener = None, conn = None, st_data = Some dm,
                st_closeErr = Some ErrNotYetConnected\<rparr>,
              tcpTimeout = ConnectTimeout cfg, tcp_address = address,
              tcp_txBuf = replicate 256 0, tcp_rxbuf = replicate 256 0\<rparr>)"

definition Server_DataModel :: "('s, 'a, 'l, 'c) Server_tcp \<Rightarrow> 's DataModel option" where
  "Server_DataModel sv = st_data (tcp_state sv)"

definition Server_Err :: "('s, 'a, 'l, 'c) Server_tcp \<Rightarrow> goerror option outcome" where
  "Server_Err sv = serverState_Err (tcp_state sv)"

definition Server_IsConnected :: "('s, 'a, 'l, 'c) Server_tcp \<Rightarrow> bool outcome" where
  "Server_IsConnected sv = serverState_IsConnected (tcp_state sv)"

definition Server_Addr :: "('a, 'l, 'c, 'w) Net \<Rightarrow> ('s, 'a, 'l, 'c) Server_tcp \<Rightarrow> 'w \<Rightarrow> 'a outcome" where
  "Server_Addr N sv w =
    (if st_mu (tcp_state sv) then Blocks
     else case listener (tcp_state sv) of None \<Rightarrow> Ret (zeroTCPAddr N) | Some l \<Rightarrow> Ret (listenerAddr N l w))"

definition Accept :: "('a, 'l, 'c, 'w) Net \<Rightarrow> ('s, 'a, 'l, 'c) Server_tcp \<Rightarrow> 'w \<Rightarrow>
    (('s, 'a, 'l, 'c) Server_tcp \<times> 'w \<times> goerror option) outcome" where
  "Accept N sv w =
     andThen (serverState_IsConnected (tcp_state sv)) (\<lambda>connected.
     if connected then Ret (sv, w, Some ErrAlreadyConnected)
     else (case listenTCP N (tcp_address sv) w of
       (w, Inl err) \<Rightarrow> Ret (sv, w, Some err)
     | (w, Inr l) \<Rightarrow>
       let w = (if tcpTimeout sv > 0 then (case netNow N w of (w, now) \<Rightarrow> listenerSetDeadline N l w (Some (now + tcpTimeout sv))) else w) in
       andThen (acceptTCP N l w) (\<lambda>(w, r).
         (case r of
           Inl err \<Rightarrow> Ret (sv, listenerClose N l w, Some err)
         | Inr c \<Rightarrow>
           if st_mu (tcp_state sv) then Blocks
           else Ret (sv\<lparr>tcp_state := (tcp_state sv)\<lparr>st_closeErr := None, listener := Some l, conn := Some c\<rparr>\<rparr>,
                  listenerSetDeadline N l w None, None)))))"

section \<open>Handling a request\<close>

text \<open>Reading and writing on a nil connection returns an error.\<close>

definition readConn :: "('a, 'l, 'c, 'w) Net \<Rightarrow> 'c option \<Rightarrow> 'w \<Rightarrow> byte list \<Rightarrow> ('w \<times> byte list \<times> int \<times> goerror option) outcome" where
  "readConn N c w p = (case c of None \<Rightarrow> Ret (w, p, 0, Some (ErrForeign ''invalid argument'')) | Some c \<Rightarrow> connRead N c w p)"

definition writeConn :: "('a, 'l, 'c, 'w) Net \<Rightarrow> 'c option \<Rightarrow> 'w \<Rightarrow> byte list \<Rightarrow> ('w \<times> goerror option) outcome" where
  "writeConn N c w b =
    (case c of None \<Rightarrow> Ret (w, Some (ErrForeign ''invalid argument''))
     | Some c \<Rightarrow> andThen (connWrite N c w b) (\<lambda>(w, n, err). Ret (w, err)))"

text \<open>
  \<open>io.ReadFull(conn, buf)\<close>: \<open>acc\<close> are the bytes read so far and \<open>rest\<close> the part of the slice that is still to
  be filled.  The result has the new contents of the whole slice.
\<close>

fun ReadFull :: "('a, 'l, 'c, 'w) Net \<Rightarrow> 'c option \<Rightarrow> nat \<Rightarrow> 'w \<Rightarrow> byte list \<Rightarrow> byte list \<Rightarrow>
    ('w \<times> byte list \<times> goerror option) outcome option" where
  "ReadFull N c 0 w acc rest = None"
| "ReadFull N c (Suc fuel) w acc rest =
    (if rest = [] then Some (Ret (w, acc, None))
     else case readConn N c w rest of
       Panic m \<Rightarrow> Some (Panic m)
     | Blocks \<Rightarrow> Some Blocks
     | Ret (w, p, n, err) \<Rightarrow>
         let read = acc @ take (nat n) p; rest = drop (nat n) p in
         if err = None then ReadFull N c fuel w read rest
         else Some (Ret (w, read @ rest,
           if rest = [] then None else if read \<noteq> [] \<and> err = Some ErrEOF then Some ErrUnexpectedEOF else err)))"

text \<open>Closing the connection with the error that the handler returns.\<close>

definition closeWith :: "('a, 'l, 'c, 'w) Net \<Rightarrow> ('s, 'a, 'l, 'c) Server_tcp \<Rightarrow> 'w \<Rightarrow> goerror option \<Rightarrow>
    (('s, 'a, 'l, 'c) Server_tcp \<times> 'w \<times> goerror option) outcome" where
  "closeWith N sv w err = andThen (CloseConn N (tcp_state sv) w err) (\<lambda>(cs, w). Ret (sv\<lparr>tcp_state := cs\<rparr>, w, err))"

definition handleException_tcp :: "('a, 'l, 'c, 'w) Net \<Rightarrow> ('s, 'a, 'l, 'c) Server_tcp \<Rightarrow> 'w \<Rightarrow> Exception \<Rightarrow> FunctionCode \<Rightarrow>
    (('s, 'a, 'l, 'c) Server_tcp \<times> 'w \<times> goerror option) outcome" where
  "handleException_tcp N sv w exc fc =
     andThen (sub (tcp_txBuf sv) 0 (int mbapSize)) (\<lambda>h.
     andThen (applicationHeader_Put (lastMBAP (tcp_state sv)) h) (\<lambda>(h, _).
     andThen (Exception_PutResponse exc (drop mbapSize (tcp_txBuf sv)) fc) (\<lambda>dst.
     let sv = sv\<lparr>tcp_txBuf := h @ dst\<rparr> in
     andThen (sub (tcp_txBuf sv) 0 (int (mbapSize + 2))) (\<lambda>p.
     andThen (writeConn N (conn (tcp_state sv)) w p) (\<lambda>(w, err).
       if err \<noteq> None then closeWith N sv w err else Ret (sv, w, err))))))"

text \<open>The end of \<open>HandleNext\<close>: the response of \<open>plen\<close> bytes behind its header.\<close>

definition sendResponse :: "('a, 'l, 'c, 'w) Net \<Rightarrow> ('s, 'a, 'l, 'c) Server_tcp \<Rightarrow> 'w \<Rightarrow> applicationHeader \<Rightarrow> nat \<Rightarrow>
    (('s, 'a, 'l, 'c) Server_tcp \<times> 'w \<times> goerror option) outcome" where
  "sendResponse N sv w mbap plen =
     andThen (sub (tcp_txBuf sv) 0 (int mbapSize)) (\<lambda>h.
     andThen (applicationHeader_Put (mbap\<lparr>Length := word_of_nat (plen + 1)\<rparr>) h) (\<lambda>(h, _).
     let sv = sv\<lparr>tcp_txBuf := h @ drop mbapSize (tcp_txBuf sv)\<rparr> in
     andThen (sub (tcp_txBuf sv) 0 (int (plen + mbapSize))) (\<lambda>p.
     andThen (writeConn N (conn (tcp_state sv)) w p) (\<lambda>(w, err).
       if err \<noteq> None then closeWith N sv w err else Ret (sv, w, err)))))"

text \<open>The part of \<open>HandleNext\<close> from \<open>PutResponse\<close> on.\<close>

definition respond :: "'s DataModelImpl \<Rightarrow> ('a, 'l, 'c, 'w) Net \<Rightarrow> ('s, 'a, 'l, 'c) Server_tcp \<Rightarrow> 'w \<Rightarrow> applicationHeader \<Rightarrow> FunctionCode \<Rightarrow>
    Request \<Rightarrow> nat \<Rightarrow> (('s, 'a, 'l, 'c) Server_tcp \<times> 'w \<times> goerror option) outcome" where
  "respond I N sv w mbap fc req dataoffset =
    (case st_data (tcp_state sv) of
       None \<Rightarrow> Panic ''invalid memory address or nil pointer dereference''
     | Some dm \<Rightarrow>
       if dataoffset > length (tcp_rxbuf sv) then Panic slice_bounds
       else
         andThen (PutResponse I req dm (drop mbapSize (tcp_txBuf sv)) (drop dataoffset (tcp_rxbuf sv))) (\<lambda>(dm, dst, d, plen, err).
         let sv = sv\<lparr>tcp_txBuf := take mbapSize (tcp_txBuf sv) @ dst, tcp_rxbuf := overwrite dataoffset d (tcp_rxbuf sv),
               tcp_state := (tcp_state sv)\<lparr>st_data := Some dm\<rparr>\<rparr> in
         (case err of
            None \<Rightarrow> sendResponse N sv w mbap plen
          | Some (ExceptionErr exc) \<Rightarrow> handleException_tcp N sv w exc fc
          | Some e \<Rightarrow> closeWith N sv w err)))"

text \<open>The part of \<open>HandleNext\<close> from the inference of the length of the request in \<open>rcvBuf[:remaining]\<close> on.\<close>

definition answerRequest :: "'s DataModelImpl \<Rightarrow> ('a, 'l, 'c, 'w) Net \<Rightarrow> ('s, 'a, 'l, 'c) Server_tcp \<Rightarrow> 'w \<Rightarrow> applicationHeader \<Rightarrow> uint16 \<Rightarrow>
    (('s, 'a, 'l, 'c) Server_tcp \<times> 'w \<times> goerror option) outcome" where
  "answerRequest I N sv w mbap remaining =
     andThen (sub (tcp_rxbuf sv) 0 (uint remaining)) (\<lambda>pdu.
     let (fc, inferred, err) = InferRequestPacketLength pdu in
     (case err of
        Some (ExceptionErr exc) \<Rightarrow> handleException_tcp N sv w exc fc
      | _ \<Rightarrow>
        andThen (DecodeRequest pdu) (\<lambda>(req, dataoffset, err).
          if err \<noteq> None then closeWith N sv w err else respond I N sv w mbap fc req dataoffset)))"

text \<open>The header of the request has been read: \<open>HandleNext\<close> from the decoding of the header on.\<close>

definition handleHeader :: "'s DataModelImpl \<Rightarrow> ('a, 'l, 'c, 'w) Net \<Rightarrow> nat \<Rightarrow> ('s, 'a, 'l, 'c) Server_tcp \<Rightarrow> 'w \<Rightarrow>
    (('s, 'a, 'l, 'c) Server_tcp \<times> 'w \<times> goerror option) outcome option" where
  "handleHeader I N fuel sv w =
    (case andThen (sub (tcp_rxbuf sv) 0 (int mbapSize)) decodeMBAP of
       Panic m \<Rightarrow> Some (Panic m)
     | Blocks \<Rightarrow> Some Blocks
     | Ret (mbap, err) \<Rightarrow>
       if err \<noteq> None then Some (closeWith N sv w err)
       else if st_mu (tcp_state sv) then Some Blocks
       else
         let sv = sv\<lparr>tcp_state := (tcp_state sv)\<lparr>lastMBAP := mbap\<rparr>\<rparr>; remaining = Length mbap - 1 in
         if uint remaining > int (length (tcp_rxbuf sv))
         then Some (closeWith N sv w (Some (ErrInvalidMBAPLength (Length mbap))))
         else
           map_option (\<lambda>r. andThen r (\<lambda>(w, p, err).
               let sv = sv\<lparr>tcp_rxbuf := p @ drop (unat remaining) (tcp_rxbuf sv)\<rparr> in
               if err \<noteq> None then closeWith N sv w err
               else answerRequest I N sv w mbap remaining))
             (ReadFull N (conn (tcp_state sv)) fuel w [] (take (unat remaining) (tcp_rxbuf sv))))"

definition HandleNext_tcp :: "'s DataModelImpl \<Rightarrow> ('a, 'l, 'c, 'w) Net \<Rightarrow> nat \<Rightarrow> ('s, 'a, 'l, 'c) Server_tcp \<Rightarrow> 'w \<Rightarrow>
    (('s, 'a, 'l, 'c) Server_tcp \<times> 'w \<times> goerror option) outcome option" where
  "HandleNext_tcp I N fuel sv w =
    (case Server_Err sv of
       Panic m \<Rightarrow> Some (Panic m)
     | Blocks \<Rightarrow> Some Blocks
     | Ret (Some err) \<Rightarrow> Some (Ret (sv, w, Some (ErrDisconnected err)))
     | Ret None \<Rightarrow>
       (case ReadFull N (conn (tcp_state sv)) fuel w [] (take mbapSize (tcp_rxbuf sv)) of
          None \<Rightarrow> None
        | Some (Panic m) \<Rightarrow> Some (Panic m)
        | Some Blocks \<Rightarrow> Some Blocks
        | Some (Ret (w, p, err)) \<Rightarrow>
          let sv = sv\<lparr>tcp_rxbuf := p @ drop mbapSize (tcp_rxbuf sv)\<rparr> in
          if err = Some ErrEOF \<or> err = Some ErrNetClosed then Some (closeWith N sv w err)
          else if err \<noteq> None then Some (Ret (sv, w, err))
          else handleHeader I N fuel sv w))"

end
