(* ===== verification/Tcp_Session.thy ===== *)
theory Tcp_Session
  imports Tcp_Server
begin

text \<open>
  A TCP server on an established connection: what \<open>HandleNext\<close> answers to the frames that arrive, however the
  network cuts them into reads, and which frames end the connection.
\<close>

section \<open>Connections\<close>

text \<open>
  The connection \<open>c\<close> hands out the bytes of \<open>inb\<close> in order, in pieces of any size, and appends what is written to
  \<open>out\<close>.
\<close>

definition conn_reads :: "('a, 'l, 'c, 'w) Net \<Rightarrow> 'c \<Rightarrow> ('w \<Rightarrow> byte list) \<Rightarrow> ('w \<Rightarrow> byte list) \<Rightarrow> bool" where
  "conn_reads N c inb out \<longleftrightarrow> (\<forall>w p. p \<noteq> [] \<and> inb w \<noteq> [] \<longrightarrow>
     (\<exists>w' p' k. connRead N c w p = Ret (w', p', int k, None) \<and> 0 < k \<and> k \<le> length p \<and> k \<le> length (inb w) \<and>
       length p' = length p \<and> take k p' = take k (inb w) \<and> inb w' = drop k (inb w) \<and> out w' = out w))"

definition conn_writes :: "('a, 'l, 'c, 'w) Net \<Rightarrow> 'c \<Rightarrow> ('w \<Rightarrow> byte list) \<Rightarrow> ('w \<Rightarrow> byte list) \<Rightarrow> bool" where
  "conn_writes N c inb out \<longleftrightarrow> (\<forall>w b. \<exists>w' n. connWrite N c w b = Ret (w', n, None) \<and> inb w' = inb w \<and> out w' = out w @ b)"

text \<open>A byte of fuel per byte is enough for \<open>io.ReadFull\<close>.\<close>

lemma ReadFull_stream:
  assumes R: "conn_reads N c inb out" and "length rest \<le> length (inb w)" and "length rest < fuel"
  shows "\<exists>w'. ReadFull N (Some c) fuel w acc rest = Some (Ret (w', acc @ take (length rest) (inb w), None)) \<and>
    inb w' = drop (length rest) (inb w) \<and> out w' = out w"
  using assms(2,3)
proof (induction fuel arbitrary: w acc rest)
  case 0
  then show ?case by simp
next
  case (Suc fuel)
  show ?case
  proof (cases "rest = []")
    case True
    then show ?thesis by simp
  next
    case False
    then have "inb w \<noteq> []" using Suc.prems(1) by auto
    with False R obtain w1 p k where r: "connRead N c w rest = Ret (w1, p, int k, None)" "0 < k" "k \<le> length rest" "k \<le> length (inb w)"
        "length p = length rest" "take k p = take k (inb w)" "inb w1 = drop k (inb w)" "out w1 = out w"
      unfolding conn_reads_def by blast
    have "length (drop k p) \<le> length (inb w1)" "length (drop k p) < fuel" using r Suc.prems by auto
    from Suc.IH [OF this, of "acc @ take k (inb w)"] obtain w' where
      w': "ReadFull N (Some c) fuel w1 (acc @ take k (inb w)) (drop k p) =
          Some (Ret (w', (acc @ take k (inb w)) @ take (length (drop k p)) (inb w1), None))"
        "inb w' = drop (length (drop k p)) (inb w1)" "out w' = out w1"
      by blast
    have split: "take (length rest) (inb w) = take k (inb w) @ take (length rest - k) (drop k (inb w))"
      using take_add [of k "length rest - k" "inb w"] r(3) by simp
    have "ReadFull N (Some c) (Suc fuel) w acc rest = ReadFull N (Some c) fuel w1 (acc @ take k (inb w)) (drop k p)"
      using False r(1,6) by (simp add: readConn_def Let_def)
    also have "\<dots> = Some (Ret (w', acc @ take (length rest) (inb w), None))"
      using w'(1) r(5,7) by (simp add: split)
    finally show ?thesis
      using w'(2,3) r(3,5,7,8) by (intro exI [of _ w']) simp
  qed
qed

text \<open>A server with an established connection and its data model.\<close>

definition connected :: "('s, 'a, 'l, 'c) Server_tcp \<Rightarrow> 'c \<Rightarrow> 's DataModel \<Rightarrow> bool" where
  "connected sv c dm \<longleftrightarrow> \<not> st_mu (tcp_state sv) \<and> st_closeErr (tcp_state sv) = None \<and> conn (tcp_state sv) = Some c \<and>
     st_data (tcp_state sv) = Some dm \<and> length (tcp_txBuf sv) = 256 \<and> length (tcp_rxbuf sv) = 256"

lemma HandleNext_header:
  assumes R: "conn_reads N c inb out" and sv: "connected sv c dm" and inb: "inb w = header_bytes ap @ rest" and fuel: "7 < fuel"
  shows "\<exists>sv1 w1. HandleNext_tcp I N fuel sv w = handleHeader I N fuel sv1 w1 \<and> connected sv1 c dm \<and>
    tcp_rxbuf sv1 = header_bytes ap @ drop 7 (tcp_rxbuf sv) \<and> tcp_state sv1 = tcp_state sv \<and> inb w1 = rest \<and> out w1 = out w"
proof -
  let ?sv = "sv\<lparr>tcp_rxbuf := header_bytes ap @ drop 7 (tcp_rxbuf sv)\<rparr>"
  have len: "length (tcp_rxbuf sv) = 256" "conn (tcp_state sv) = Some c" using sv by (simp_all add: connected_def)
  have "length (take 7 (tcp_rxbuf sv)) \<le> length (inb w)" "length (take 7 (tcp_rxbuf sv)) < fuel" using inb len fuel by simp_all
  from ReadFull_stream [OF R this, of "[]"] obtain w1 where
    w1: "ReadFull N (Some c) fuel w [] (take 7 (tcp_rxbuf sv)) = Some (Ret (w1, header_bytes ap, None))" "inb w1 = rest" "out w1 = out w"
    using inb len by auto
  have "HandleNext_tcp I N fuel sv w = handleHeader I N fuel ?sv w1"
    using sv w1 len by (simp add: HandleNext_tcp_def Server_Err_def serverState_Err_def connected_def mbapSize_def)
  moreover have "connected ?sv c dm" using sv by (simp add: connected_def)
  ultimately show ?thesis using w1 by (intro exI [of _ ?sv] exI [of _ w1]) simp
qed

text \<open>A whole frame: the request is in the receive buffer and its header is remembered.\<close>

lemma HandleNext_request:
  assumes R: "conn_reads N c inb out" and sv: "connected sv c dm" and inb: "inb w = header_bytes ap @ pdu @ rest"
    and ap: "Protocol ap = 0" "Length ap = word_of_nat (length pdu + 1)" and pdu: "length pdu \<le> 256" and fuel: "7 < fuel" "length pdu < fuel"
  shows "\<exists>sv1 w1. HandleNext_tcp I N fuel sv w = Some (answerRequest I N sv1 w1 ap (word_of_nat (length pdu))) \<and> connected sv1 c dm \<and>
    take (length pdu) (tcp_rxbuf sv1) = pdu \<and> lastMBAP (tcp_state sv1) = ap \<and> listener (tcp_state sv1) = listener (tcp_state sv) \<and>
    inb w1 = rest \<and> out w1 = out w"
proof -
  obtain sv1 w1 where s1: "HandleNext_tcp I N fuel sv w = handleHeader I N fuel sv1 w1" "connected sv1 c dm"
      "tcp_rxbuf sv1 = header_bytes ap @ drop 7 (tcp_rxbuf sv)" "tcp_state sv1 = tcp_state sv" "inb w1 = pdu @ rest" "out w1 = out w"
    using HandleNext_header [OF R sv inb fuel(1)] by blast
  let ?sv = "sv1\<lparr>tcp_state := (tcp_state sv1)\<lparr>lastMBAP := ap\<rparr>\<rparr>"
  let ?n = "word_of_nat (length pdu) :: uint16"
  have n: "unat ?n = length pdu" using pdu by (simp add: unat_of_nat)
  have rem: "Length ap - 1 = ?n" by (simp add: ap(2))
  have len: "length (tcp_rxbuf sv1) = 256" "conn (tcp_state sv1) = Some c" using s1(2) by (simp_all add: connected_def)
  have "length (take (length pdu) (tcp_rxbuf sv1)) \<le> length (inb w1)" "length (take (length pdu) (tcp_rxbuf sv1)) < fuel"
    using s1(5) fuel pdu len by simp_all
  from ReadFull_stream [OF R this, of "[]"] obtain w2 where
    w2: "ReadFull N (Some c) fuel w1 [] (take (length pdu) (tcp_rxbuf sv1)) = Some (Ret (w2, pdu, None))" "inb w2 = rest" "out w2 = out w1"
    using s1(5) len pdu by (auto simp: min_def)
  let ?sv' = "?sv\<lparr>tcp_rxbuf := pdu @ drop (length pdu) (tcp_rxbuf sv1)\<rparr>"
  have "sub (tcp_rxbuf sv1) 0 (int mbapSize) = Ret (header_bytes ap)" using s1(3) len by (simp add: sub_def mbapSize_def)
  moreover have "decodeMBAP (header_bytes ap) = Ret (ap, None)" using decodeMBAP_bytes [of ap "[]"] ap(1) by simp
  moreover have "\<not> uint ?n > 256" using n pdu by (simp add: uint_nat)
  ultimately have "handleHeader I N fuel sv1 w1 = Some (answerRequest I N ?sv' w2 ap ?n)"
    using s1(2) w2(1) len n rem by (simp add: handleHeader_def Let_def connected_def)
  moreover have "connected ?sv' c dm" using s1(2) pdu by (simp add: connected_def)
  ultimately show ?thesis using s1 w2 by (intro exI [of _ ?sv'] exI [of _ w2]) simp
qed

section \<open>Answers\<close>

lemma writeConn_stream:
  assumes "conn_writes N c inb out"
  obtains w' where "writeConn N (Some c) w b = Ret (w', None)" and "inb w' = inb w" and "out w' = out w @ b"
proof -
  obtain w' n where "connWrite N c w b = Ret (w', n, None)" "inb w' = inb w" "out w' = out w @ b"
    using assms unfolding conn_writes_def by blast
  then show ?thesis by (intro that [of w']) (simp_all add: writeConn_def)
qed

lemma sendResponse_stream:
  assumes W: "conn_writes N c inb out" and sv: "connected sv c dm" and rsp: "take (length rsp) (drop 7 (tcp_txBuf sv)) = rsp" "length rsp \<le> 249"
  shows "\<exists>sv' w'. sendResponse N sv w mbap (length rsp) = Ret (sv', w', None) \<and> connected sv' c dm \<and> inb w' = inb w \<and>
    out w' = out w @ header_bytes (mbap\<lparr>Length := word_of_nat (length rsp + 1)\<rparr>) @ rsp \<and> tcp_state sv' = tcp_state sv"
proof -
  let ?h = "header_bytes (mbap\<lparr>Length := word_of_nat (length rsp + 1)\<rparr>)"
  let ?sv = "sv\<lparr>tcp_txBuf := ?h @ drop 7 (tcp_txBuf sv)\<rparr>"
  have len: "length (tcp_txBuf sv) = 256" "conn (tcp_state sv) = Some c" using sv by (simp_all add: connected_def)
  obtain w' where w': "writeConn N (Some c) w (?h @ rsp) = Ret (w', None)" "inb w' = inb w" "out w' = out w @ ?h @ rsp"
    using writeConn_stream [OF W] by blast
  have "sub (tcp_txBuf sv) 0 (int mbapSize) = Ret (take 7 (tcp_txBuf sv))" using len by (simp add: sub_def mbapSize_def)
  moreover have "applicationHeader_Put (mbap\<lparr>Length := word_of_nat (length rsp + 1)\<rparr>) (take 7 (tcp_txBuf sv)) = Ret (?h, None)"
    using len by (simp add: Put_eq)
  moreover have "sub (?h @ drop 7 (tcp_txBuf sv)) 0 (int (length rsp + mbapSize)) = Ret (?h @ rsp)"
    using rsp len sub_nat [of 0 "length rsp + 7" "?h @ drop 7 (tcp_txBuf sv)"] by (simp add: mbapSize_def)
  ultimately have "sendResponse N sv w mbap (length rsp) = Ret (?sv, w', None)"
    using w'(1) len by (simp add: sendResponse_def mbapSize_def)
  moreover have "connected ?sv c dm" using sv by (simp add: connected_def)
  ultimately show ?thesis using w' by (intro exI [of _ ?sv] exI [of _ w']) simp
qed

lemma sub_request:
  assumes "connected sv c dm" and "take (length pdu) (tcp_rxbuf sv) = pdu" and "length pdu \<le> 256"
  shows "sub (tcp_rxbuf sv) 0 (uint (word_of_nat (length pdu) :: uint16)) = Ret pdu"
proof -
  have "unat (word_of_nat (length pdu) :: uint16) = length pdu" using assms(3) by (simp add: unat_of_nat)
  then have "uint (word_of_nat (length pdu) :: uint16) = int (length pdu)" by (simp only: uint_nat)
  moreover have "sub (tcp_rxbuf sv) 0 (int (length pdu)) = Ret pdu"
    using sub_nat [of 0 "length pdu" "tcp_rxbuf sv"] assms by (simp add: connected_def)
  ultimately show ?thesis by (simp only:)
qed

text \<open>A decoded request up to its access to the model.\<close>

lemma answerRequest_decoded:
  assumes sv: "connected sv c dm" "take (length pdu) (tcp_rxbuf sv) = pdu" "length pdu \<le> 256"
    and inf: "InferRequestPacketLength pdu = (fc, n, None)" and dec: "DecodeRequest pdu = Ret (req, off, None)" "off \<le> 256"
    and put: "PutResponse I req dm (drop 7 (tcp_txBuf sv)) (drop off (tcp_rxbuf sv)) = Ret (dm', dst, d, plen, err)"
    and len: "length dst = 249" "length d = 256 - off"
  shows "\<exists>sv1. answerRequest I N sv w ap (word_of_nat (length pdu)) =
      (case err of None \<Rightarrow> sendResponse N sv1 w ap plen
       | Some (ExceptionErr exc) \<Rightarrow> handleException_tcp N sv1 w exc fc
       | Some e \<Rightarrow> closeWith N sv1 w err) \<and>
    connected sv1 c dm' \<and> drop 7 (tcp_txBuf sv1) = dst \<and> tcp_state sv1 = (tcp_state sv)\<lparr>st_data := Some dm'\<rparr>"
proof -
  let ?sv = "sv\<lparr>tcp_txBuf := take 7 (tcp_txBuf sv) @ dst, tcp_rxbuf := overwrite off d (tcp_rxbuf sv),
      tcp_state := (tcp_state sv)\<lparr>st_data := Some dm'\<rparr>\<rparr>"
  have st: "length (tcp_rxbuf sv) = 256" "length (tcp_txBuf sv) = 256" "st_data (tcp_state sv) = Some dm" using sv(1) by (simp_all add: connected_def)
  have "answerRequest I N sv w ap (word_of_nat (length pdu)) =
      (case err of None \<Rightarrow> sendResponse N ?sv w ap plen
       | Some (ExceptionErr exc) \<Rightarrow> handleException_tcp N ?sv w exc fc
       | Some e \<Rightarrow> closeWith N ?sv w err)"
    using inf dec put st by (simp add: answerRequest_def respond_def sub_request [OF sv] Let_def mbapSize_def)
  moreover have "connected ?sv c dm'" using sv(1) dec(2) len by (simp add: connected_def)
  ultimately show ?thesis using st by (intro exI [of _ ?sv]) simp
qed

lemma answerRequest_nominal:
  assumes "conn_writes N c inb out" and sv: "connected sv c dm" "take (length pdu) (tcp_rxbuf sv) = pdu" "length pdu \<le> 256"
    and inf: "InferRequestPacketLength pdu = (fc, n, None)" and dec: "DecodeRequest pdu = Ret (req, off, None)" "off \<le> 256"
    and put: "PutResponse I req dm (drop 7 (tcp_txBuf sv)) (drop off (tcp_rxbuf sv)) =
      Ret (dm', rsp @ drop (length rsp) (drop 7 (tcp_txBuf sv)), d, length rsp, None)"
    and len: "length rsp \<le> 249" "length d = 256 - off"
  shows "\<exists>sv' w'. answerRequest I N sv w ap (word_of_nat (length pdu)) = Ret (sv', w', None) \<and> connected sv' c dm' \<and> inb w' = inb w \<and>
    out w' = out w @ header_bytes (ap\<lparr>Length := word_of_nat (length rsp + 1)\<rparr>) @ rsp"
proof -
  have "length (rsp @ drop (length rsp) (drop 7 (tcp_txBuf sv))) = 249" using sv(1) len(1) by (simp add: connected_def)
  from answerRequest_decoded [OF sv inf dec put this len(2), of N w ap] obtain sv1 where
    s1: "answerRequest I N sv w ap (word_of_nat (length pdu)) = sendResponse N sv1 w ap (length rsp)" "connected sv1 c dm'"
      "drop 7 (tcp_txBuf sv1) = rsp @ drop (length rsp) (drop 7 (tcp_txBuf sv))"
    by auto
  show ?thesis
    using sendResponse_stream [OF assms(1) s1(2) _ len(1), of w ap] s1(1,3) by auto
qed

lemma handleException_stream:
  assumes W: "conn_writes N c inb out" and sv: "connected sv c dm"
  shows "\<exists>sv' w'. handleException_tcp N sv w exc fc = Ret (sv', w', None) \<and> connected sv' c dm \<and> inb w' = inb w \<and>
    out w' = out w @ header_bytes (lastMBAP (tcp_state sv)) @ [fc OR 0x80, exc]"
proof -
  let ?h = "header_bytes (lastMBAP (tcp_state sv))"
  have len: "length (tcp_txBuf sv) = 256" "conn (tcp_state sv) = Some c" using sv by (simp_all add: connected_def)
  then have l: "length (drop 7 (tcp_txBuf sv)) = 249" by simp
  then obtain a b r where r: "drop 7 (tcp_txBuf sv) = a # b # r" using two_le_length [of "drop 7 (tcp_txBuf sv)"] by auto
  have lr: "length r = 247" using l unfolding r by simp
  let ?sv = "sv\<lparr>tcp_txBuf := ?h @ [fc OR 0x80, exc] @ r\<rparr>"
  obtain w' where w': "writeConn N (Some c) w (?h @ [fc OR 0x80, exc]) = Ret (w', None)" "inb w' = inb w" "out w' = out w @ ?h @ [fc OR 0x80, exc]"
    using writeConn_stream [OF W] by blast
  have "sub (tcp_txBuf sv) 0 (int mbapSize) = Ret (take 7 (tcp_txBuf sv))" using len by (simp add: sub_def mbapSize_def)
  moreover have "applicationHeader_Put (lastMBAP (tcp_state sv)) (take 7 (tcp_txBuf sv)) = Ret (?h, None)"
    using len by (simp add: Put_eq)
  moreover have "Exception_PutResponse exc (drop mbapSize (tcp_txBuf sv)) fc = Ret ([fc OR 0x80, exc] @ r)"
    using r by (simp add: Exception_PutResponse_def store_def mbapSize_def)
  moreover have "sub (?h @ [fc OR 0x80, exc] @ r) 0 (int (mbapSize + 2)) = Ret (?h @ [fc OR 0x80, exc])"
    using lr sub_nat [of 0 9 "?h @ [fc OR 0x80, exc] @ r"] by (simp add: mbapSize_def)
  ultimately have "handleException_tcp N sv w exc fc = Ret (?sv, w', None)"
    using w'(1) len by (simp add: handleException_tcp_def)
  moreover have "connected ?sv c dm" using sv lr by (simp add: connected_def)
  ultimately show ?thesis using w' by (intro exI [of _ ?sv] exI [of _ w']) simp
qed

section \<open>A connection for examples\<close>

text \<open>A connection that delivers one byte per read and then the end of the stream.\<close>

record Wire =
  wireIn :: "byte list"
  wireOut :: "byte list"
  listening :: bool

definition wireNet :: "(string, unit, unit, Wire) Net" where
  "wireNet = \<lparr>parseAddrPort = Inr, zeroTCPAddr = [], listenTCP = \<lambda>a w. (w\<lparr>listening := True\<rparr>, Inr ()),
     listenerSetDeadline = \<lambda>l w d. w, acceptTCP = \<lambda>l w. Ret (w, Inr ()), listenerClose = \<lambda>l w. w\<lparr>listening := False\<rparr>,
     listenerAddr = \<lambda>l w. ''127.0.0.1:502'',
     connRead = \<lambda>c w p. if p = [] then Ret (w, p, 0, None)
       else case wireIn w of [] \<Rightarrow> Ret (w, p, 0, Some ErrEOF) | b # bs \<Rightarrow> Ret (w\<lparr>wireIn := bs\<rparr>, p[0 := b], 1, None),
     connWrite = \<lambda>c w b. Ret (w\<lparr>wireOut := wireOut w @ b\<rparr>, int (length b), None),
     netNow = \<lambda>w. (w, 0)\<rparr>"

lemma wireNet_reads: "conn_reads wireNet () wireIn wireOut"
  unfolding conn_reads_def
proof (intro allI impI)
  fix w :: Wire and p :: "byte list"
  assume "p \<noteq> [] \<and> wireIn w \<noteq> []"
  then obtain x ps b bs where "p = x # ps" "wireIn w = b # bs" by (auto simp: neq_Nil_conv)
  then show "\<exists>w' p' k. connRead wireNet () w p = Ret (w', p', int k, None) \<and> 0 < k \<and> k \<le> length p \<and> k \<le> length (wireIn w) \<and>
      length p' = length p \<and> take k p' = take k (wireIn w) \<and> wireIn w' = drop k (wireIn w) \<and> wireOut w' = wireOut w"
    by (intro exI [of _ "w\<lparr>wireIn := bs\<rparr>"] exI [of _ "b # ps"] exI [of _ "1 :: nat"]) (simp add: wireNet_def)
qed

lemma wireNet_writes: "conn_writes wireNet () wireIn wireOut"
  by (auto simp: conn_writes_def wireNet_def)

definition demoTcp :: "(unit, string, unit, unit) Server_tcp" where
  "demoTcp = \<lparr>tcp_state = \<lparr>st_mu = False, lastMBAP = zeroHeader, listener = Some (), conn = Some (),
       st_data = Some (BlockedDM zeroBlockedModel), st_closeErr = None\<rparr>,
     tcpTimeout = 0, tcp_address = ''127.0.0.1:502'', tcp_txBuf = replicate 256 0, tcp_rxbuf = replicate 256 0\<rparr>"

lemma demoTcp_connected: "connected demoTcp () (BlockedDM zeroBlockedModel)"
  by (simp add: demoTcp_def connected_def)

abbreviation "wire frame \<equiv> \<lparr>wireIn = frame, wireOut = [], listening = True\<rparr>"

text \<open>The header of a request with the PDU \<open>pdu\<close>.\<close>

abbreviation "requestHeader tid unit' pdu \<equiv> \<lparr>Transaction = tid, Protocol = 0, Length = word_of_nat (length pdu + 1), Unit = unit'\<rparr>"

section \<open>Properties\<close>

lemma read_pdu:
  assumes fc: "fc = FCReadHoldingRegisters \<or> fc = FCReadInputRegisters"
  shows "InferRequestPacketLength [fc, hi8 a, lo8 a, hi8 q, lo8 q] = (fc, 5, None)"
    and "DecodeRequest [fc, hi8 a, lo8 a, hi8 q, lo8 q] = Ret (read_request fc a q, 0, None)"
  using InferRequest_simple [of fc "[hi8 a, lo8 a, hi8 q, lo8 q]"] DecodeRequest_simple [of fc a q "[]"] fc
  by (auto simp: read_request_def)

text \<open>
  C3. A connected TCP server answers a register read of up to 123 registers: when the frame of the request
  arrives, in pieces of any size, \<open>HandleNext\<close> returns without error after writing one frame with the transaction
  and unit of the request, the length of the response and the requested registers; it consumes exactly the
  request, keeps the data model and stays connected.  Fuel for the bytes of the header is enough.
\<close>

theorem tcp_server_answers_read:
  assumes "conn_reads N c inb out" and "conn_writes N c inb out" and "connected sv c dm" and "dm_ok dm"
    and fc: "fc = FCReadHoldingRegisters \<or> fc = FCReadInputRegisters" and q: "0 < unat q" "unat a + unat q \<le> 125" "unat q \<le> 123"
    and "pdu = [fc, hi8 a, lo8 a, hi8 q, lo8 q]" and "inb w = header_bytes (requestHeader tid unit' pdu) @ pdu @ rest" and "7 < fuel"
  shows "\<exists>sv' w'. HandleNext_tcp I N fuel sv w = Some (Ret (sv', w', None)) \<and> connected sv' c dm \<and> inb w' = rest \<and>
    out w' = out w @ header_bytes \<lparr>Transaction = tid, Protocol = 0, Length = word_of_nat (2 * unat q + 3), Unit = unit'\<rparr> @
      fc # word_of_nat (2 * unat q) # be_bytes (map (\<lambda>k. regs_of fc dm (uint a + int k)) [0..<unat q])"
proof -
  let ?rsp = "fc # word_of_nat (2 * unat q) # be_bytes (map (\<lambda>k. regs_of fc dm (uint a + int k)) [0..<unat q])"
  have "length pdu \<le> 256" "length pdu < fuel" using assms(9,11) by simp_all
  with HandleNext_request [OF assms(1,3,10), of fuel I] assms(11) obtain sv1 w1 where
    r: "HandleNext_tcp I N fuel sv w = Some (answerRequest I N sv1 w1 (requestHeader tid unit' pdu) (word_of_nat (length pdu)))"
      "connected sv1 c dm" "take (length pdu) (tcp_rxbuf sv1) = pdu" "inb w1 = rest" "out w1 = out w"
    by auto
  have len: "2 + 2 * unat q \<le> length (drop 0 (tcp_rxbuf sv1))" "2 + 2 * unat q \<le> length (drop 7 (tcp_txBuf sv1))" "length (tcp_rxbuf sv1) = 256"
    using r(2) q(3) by (auto simp: connected_def)
  from putresponse_registers [OF assms(4) fc q(1,2) len(1,2), of I]
  have put: "PutResponse I (read_request fc a q) dm (drop 7 (tcp_txBuf sv1)) (drop 0 (tcp_rxbuf sv1)) =
      Ret (dm, ?rsp @ drop (length ?rsp) (drop 7 (tcp_txBuf sv1)),
        overwrite 2 (be_bytes (map (\<lambda>k. regs_of fc dm (uint a + int k)) [0..<unat q])) (drop 0 (tcp_rxbuf sv1)), length ?rsp, None)"
    by simp
  have "\<exists>sv' w'. answerRequest I N sv1 w1 (requestHeader tid unit' pdu) (word_of_nat (length pdu)) = Ret (sv', w', None) \<and> connected sv' c dm \<and>
      inb w' = inb w1 \<and> out w' = out w1 @ header_bytes (requestHeader tid unit' pdu\<lparr>Length := word_of_nat (length ?rsp + 1)\<rparr>) @ ?rsp"
    by (rule answerRequest_nominal [OF assms(2) r(2,3) _ read_pdu [OF fc, of a q, folded assms(9)] _ put])
      (use q(3) assms(9) len in simp_all)
  then show ?thesis using r by (auto simp: algebra_simps)
qed

theorem tcp_server_answers_read_witness:
  "\<exists>sv' w'. HandleNext_tcp noTables wireNet 8 demoTcp (wire ([0, 9, 0, 0, 0, 6, 1] @ [3, hi8 7, lo8 7, hi8 2, lo8 2])) =
      Some (Ret (sv', w', None)) \<and> wireOut w' = [0, 9, 0, 0, 0, 7, 1, 3, 4, 0, 0, 0, 0]"
proof -
  have "be_bytes (map (\<lambda>k. regs_of FCReadHoldingRegisters (BlockedDM zeroBlockedModel :: unit DataModel) (uint (7 :: uint16) + int k)) [0..<unat (2 :: uint16)]) =
      [0, 0, 0, 0]"
    by (simp add: regs_of_def holding_def zeroBlockedModel_def upt_rec hi8_def lo8_def)
  then show ?thesis
    using tcp_server_answers_read [OF wireNet_reads wireNet_writes demoTcp_connected _ _ _ _ _ refl, of FCReadHoldingRegisters 2 7
        "wire ([0, 9, 0, 0, 0, 6, 1] @ [3, hi8 7, lo8 7, hi8 2, lo8 2])" 9 1 "[]" 8 noTables]
    by (auto simp: header_bytes_def hi8_def lo8_def)
qed

text \<open>
  C4. A connected TCP server performs a multiple-register write: it stores exactly the registers of the
  request, changes nothing else in the model and answers with one frame that echoes address and quantity.
\<close>

theorem tcp_server_performs_write:
  assumes "conn_reads N c inb out" and "conn_writes N c inb out" and "connected sv c dm" and "dm_ok dm"
    and rs: "0 < length rs" "length rs \<le> 123" "unat a + length rs < 125" and q: "q = word_of_nat (length rs)"
    and "pdu = [FCWriteMultipleRegisters, hi8 a, lo8 a, hi8 q, lo8 q, word_of_nat (2 * length rs)] @ be_bytes rs"
    and "inb w = header_bytes (requestHeader tid unit' pdu) @ pdu @ rest" and "length pdu + 1 < fuel"
  shows "\<exists>sv' w' dm'. HandleNext_tcp I N fuel sv w = Some (Ret (sv', w', None)) \<and> connected sv' c dm' \<and> dm_ok dm' \<and>
    bank_of dm' = (bank_of dm)\<lparr>bHolding := upd_range (holding dm) (uint a) rs\<rparr> \<and> inb w' = rest \<and>
    out w' = out w @ header_bytes \<lparr>Transaction = tid, Protocol = 0, Length = 6, Unit = unit'\<rparr> @
      [FCWriteMultipleRegisters, hi8 a, lo8 a, hi8 q, lo8 q]"
proof -
  let ?n = "word_of_nat (2 * length rs) :: byte" and ?rsp = "[FCWriteMultipleRegisters, hi8 a, lo8 a, hi8 q, lo8 q]"
  have uq: "unat q = length rs" using rs(2) by (simp add: q unat_of_nat)
  have un: "unat ?n = 2 * length rs" using rs(2) unat_of_nat [of "2 * length rs", where 'a = 8] by simp
  have lp: "length pdu = 6 + 2 * length rs" by (simp add: assms(9))
  have "length pdu \<le> 256" "length pdu < fuel" "7 < fuel" using lp rs assms(11) by simp_all
  with HandleNext_request [OF assms(1,3,10), of fuel I] obtain sv1 w1 where
    r: "HandleNext_tcp I N fuel sv w = Some (answerRequest I N sv1 w1 (requestHeader tid unit' pdu) (word_of_nat (length pdu)))"
      "connected sv1 c dm" "take (length pdu) (tcp_rxbuf sv1) = pdu" "inb w1 = rest" "out w1 = out w"
    by auto
  have len: "length (tcp_rxbuf sv1) = 256" "length (tcp_txBuf sv1) = 256" using r(2) by (simp_all add: connected_def)
  have inf: "InferRequestPacketLength pdu = (FCWriteMultipleRegisters, word_of_nat (6 + length (be_bytes rs)), None)"
    using InferRequest_multiple [of FCWriteMultipleRegisters "be_bytes rs"] rs by (simp add: assms(9))
  have dec: "DecodeRequest pdu = Ret (write_request FCWriteMultipleRegisters ?n a q, 6, None)"
    using DecodeRequest_multiple [of FCWriteMultipleRegisters "be_bytes rs" a q "[]"] rs by (simp add: assms(9) write_request_def)
  let ?data = "drop 6 (tcp_rxbuf sv1)"
  have "take (2 * length rs) ?data = drop 6 (take (length pdu) (tcp_rxbuf sv1))" by (simp add: lp drop_take)
  also have "\<dots> = be_bytes rs" unfolding r(3) by (simp add: assms(9))
  finally have data: "?data = be_bytes rs @ drop (2 * length rs) ?data"
    using append_take_drop_id [of "2 * length rs" ?data] by simp
  have "data_regs ?data (unat q) = rs" unfolding uq by (subst data) (rule data_regs_be_bytes)
  then obtain dm' where put: "PutResponse I (write_request FCWriteMultipleRegisters ?n a q) dm (drop 7 (tcp_txBuf sv1)) ?data =
      Ret (dm', ?rsp @ drop (length ?rsp) (drop 7 (tcp_txBuf sv1)), ?data, length ?rsp, None)"
      and dm': "dm_ok dm'" "bank_of dm' = (bank_of dm)\<lparr>bHolding := upd_range (holding dm) (uint a) rs\<rparr>"
    using putresponse_write_registers [OF assms(4), of a q ?n ?data "drop 7 (tcp_txBuf sv1)" I] rs len
    unfolding uq un by (auto simp: bank_of_def)
  have "\<exists>sv' w'. answerRequest I N sv1 w1 (requestHeader tid unit' pdu) (word_of_nat (length pdu)) = Ret (sv', w', None) \<and> connected sv' c dm' \<and>
      inb w' = inb w1 \<and> out w' = out w1 @ header_bytes (requestHeader tid unit' pdu\<lparr>Length := word_of_nat (length ?rsp + 1)\<rparr>) @ ?rsp"
    by (rule answerRequest_nominal [OF assms(2) r(2,3) _ inf dec _ put]) (use lp rs len in simp_all)
  then show ?thesis using r dm' by auto
qed

theorem tcp_server_performs_write_witness:
  "\<exists>sv' w' dm'. HandleNext_tcp noTables wireNet 10 demoTcp (wire ([0, 9, 0, 0, 0, 9, 1] @ [16, hi8 7, lo8 7, hi8 1, lo8 1, 2, 0x12, 0x34])) =
      Some (Ret (sv', w', None)) \<and> connected sv' () dm' \<and> wireOut w' = [0, 9, 0, 0, 0, 6, 1, 16, 0, 7, 0, 1]"
  using tcp_server_performs_write [OF wireNet_reads wireNet_writes demoTcp_connected, of "[0x1234]" 7 1
      "[16, hi8 7, lo8 7, hi8 1, lo8 1, 2, 0x12, 0x34]" "wire ([0, 9, 0, 0, 0, 9, 1] @ [16, hi8 7, lo8 7, hi8 1, lo8 1, 2, 0x12, 0x34])" 9 1 "[]" 10 noTables]
  by (auto simp: header_bytes_def hi8_def lo8_def)

text \<open>
  C39. The exception answer of the TCP server carries the header of the request: a register read past the end
  of the table is answered by the two-byte exception PDU, but the length field is still the one of the request, 6,
  although three bytes follow it.  The model is unchanged and the connection stays open.
\<close>

theorem tcp_exception_length:
  assumes "conn_reads N c inb out" and "conn_writes N c inb out" and "connected sv c dm" and "dm_ok dm"
    and fc: "fc = FCReadHoldingRegisters \<or> fc = FCReadInputRegisters" and q: "0 < unat q" "125 < unat a + unat q" "unat q \<le> 125"
    and "pdu = [fc, hi8 a, lo8 a, hi8 q, lo8 q]" and "inb w = header_bytes (requestHeader tid unit' pdu) @ pdu @ rest" and "7 < fuel"
  shows "\<exists>sv' w'. HandleNext_tcp I N fuel sv w = Some (Ret (sv', w', None)) \<and> connected sv' c dm \<and> inb w' = rest \<and>
    out w' = out w @ header_bytes \<lparr>Transaction = tid, Protocol = 0, Length = 6, Unit = unit'\<rparr> @ [fc OR 0x80, ExceptionIllegalDataAddr]"
proof -
  have "length pdu \<le> 256" "length pdu < fuel" using assms(9,11) by simp_all
  with HandleNext_request [OF assms(1,3,10), of fuel I] assms(11) obtain sv1 w1 where
    r: "HandleNext_tcp I N fuel sv w = Some (answerRequest I N sv1 w1 (requestHeader tid unit' pdu) (word_of_nat (length pdu)))"
      "connected sv1 c dm" "take (length pdu) (tcp_rxbuf sv1) = pdu" "inb w1 = rest" "out w1 = out w"
      "lastMBAP (tcp_state sv1) = requestHeader tid unit' pdu"
    by auto
  have len: "length (tcp_rxbuf sv1) = 256" "length (tcp_txBuf sv1) = 256" using r(2) by (simp_all add: connected_def)
  obtain d where put: "PutResponse I (read_request fc a q) dm (drop 7 (tcp_txBuf sv1)) (drop 0 (tcp_rxbuf sv1)) =
      Ret (dm, (drop 7 (tcp_txBuf sv1))[0 := fc OR 0x80, 1 := ExceptionIllegalDataAddr], d, 2, Some (ExceptionErr ExceptionIllegalDataAddr))"
      and d: "length d = 256 - 0"
    using putresponse_registers_out [OF assms(4) fc q(1,2), of "drop 0 (tcp_rxbuf sv1)" "drop 7 (tcp_txBuf sv1)" I] q(3) len by auto
  have pl: "length pdu \<le> 256" "length ((drop 7 (tcp_txBuf sv1))[0 := fc OR 0x80, 1 := ExceptionIllegalDataAddr]) = 249"
    using assms(9) len by simp_all
  from answerRequest_decoded [OF r(2,3) pl(1) read_pdu [OF fc, of a q, folded assms(9)] _ put pl(2) d, of N w1 "requestHeader tid unit' pdu"]
  obtain sv2 where s2: "answerRequest I N sv1 w1 (requestHeader tid unit' pdu) (word_of_nat (length pdu)) =
        handleException_tcp N sv2 w1 ExceptionIllegalDataAddr fc"
      "connected sv2 c dm" "tcp_state sv2 = (tcp_state sv1)\<lparr>st_data := Some dm\<rparr>"
    by auto
  have "lastMBAP (tcp_state sv2) = \<lparr>Transaction = tid, Protocol = 0, Length = 6, Unit = unit'\<rparr>"
    using s2(3) r(6) by (simp add: assms(9))
  with handleException_stream [OF assms(2) s2(2), of w1 ExceptionIllegalDataAddr fc] r s2(1) show ?thesis by auto
qed

theorem tcp_exception_length_witness:
  "\<exists>sv' w'. HandleNext_tcp noTables wireNet 8 demoTcp (wire ([0, 9, 0, 0, 0, 6, 1] @ [3, hi8 124, lo8 124, hi8 2, lo8 2])) =
      Some (Ret (sv', w', None)) \<and> wireOut w' = [0, 9, 0, 0, 0, 6, 1, 0x83, 2]"
  using tcp_exception_length [OF wireNet_reads wireNet_writes demoTcp_connected _ _ _ _ _ refl, of FCReadHoldingRegisters 2 124
      "wire ([0, 9, 0, 0, 0, 6, 1] @ [3, hi8 124, lo8 124, hi8 2, lo8 2])" 9 1 "[]" 8 noTables]
  by (auto simp: header_bytes_def hi8_def lo8_def)

text \<open>
  C38. A header that the server cannot accept ends the connection: a protocol other than 0, or a length of 0 or
  above 257, makes \<open>HandleNext\<close> return the error without reading further and close the listener; from then on
  \<open>Err\<close> is that error, \<open>IsConnected\<close> is false and \<open>HandleNext\<close> refuses at once without touching the network.  A
  length of 0 is refused because the code computes 65535 remaining bytes.
\<close>

theorem tcp_bad_header_closes:
  assumes "conn_reads N c inb out" and "connected sv c dm" and l: "listener (tcp_state sv) = Some l"
    and "inb w = header_bytes ap @ rest" and "7 < fuel"
    and bad: "err = (if Protocol ap \<noteq> 0 then ErrMBAPProtocol (Protocol ap) else ErrInvalidMBAPLength (Length ap))"
      "Protocol ap \<noteq> 0 \<or> Length ap = 0 \<or> 257 < unat (Length ap)"
  shows "\<exists>sv' w1. HandleNext_tcp I N fuel sv w = Some (Ret (sv', listenerClose N l w1, Some err)) \<and> inb w1 = rest \<and> out w1 = out w \<and>
    Server_Err sv' = Ret (Some err) \<and> Server_IsConnected sv' = Ret False \<and>
    (\<forall>fuel' w'. HandleNext_tcp I N fuel' sv' w' = Some (Ret (sv', w', Some (ErrDisconnected err))))"
proof -
  obtain sv1 w1 where s1: "HandleNext_tcp I N fuel sv w = handleHeader I N fuel sv1 w1" "connected sv1 c dm"
      "tcp_rxbuf sv1 = header_bytes ap @ drop 7 (tcp_rxbuf sv)" "tcp_state sv1 = tcp_state sv" "inb w1 = rest" "out w1 = out w"
    using HandleNext_header [OF assms(1,2,4,5)] by blast
  have mu: "\<not> st_mu (tcp_state sv)" "length (tcp_rxbuf sv1) = 256" using assms(2) s1(2) by (simp_all add: connected_def)
  have sub: "sub (tcp_rxbuf sv1) 0 (int mbapSize) = Ret (header_bytes ap)" using s1(3) mu(2) by (simp add: sub_def mbapSize_def)
  have dec: "decodeMBAP (header_bytes ap) = (if Protocol ap = 0 then Ret (ap, None) else Ret (zeroHeader, Some (ErrMBAPProtocol (Protocol ap))))"
    using decodeMBAP_bytes [of ap "[]"] by simp
  have long: "256 < uint (Length ap - 1)" if "Protocol ap = 0"
  proof (cases "Length ap = 0")
    case False
    then have "256 < unat (Length ap - 1)" using unat_minus_one [OF False] bad(2) that by simp
    then have "int 256 < int (unat (Length ap - 1))" by (simp only: of_nat_less_iff)
    then show ?thesis by (simp only: uint_nat of_nat_numeral)
  qed (simp add: unsigned_minus_1_eq_mask mask_eq_exp_minus_1)
  obtain st where st: "handleHeader I N fuel sv1 w1 =
      Some (Ret (sv1\<lparr>tcp_state := st\<rparr>, listenerClose N l w1, Some err))" "st_closeErr st = Some err" "\<not> st_mu st"
    using long bad(1) mu l s1(4) by (cases "Protocol ap = 0")
      (auto simp: handleHeader_def sub dec closeWith_def CloseConn_def Let_def)
  show ?thesis
    using s1 st by (intro exI [of _ "sv1\<lparr>tcp_state := st\<rparr>"] exI [of _ w1])
      (simp add: Server_Err_def Server_IsConnected_def serverState_Err_def serverState_IsConnected_def HandleNext_tcp_def)
qed

theorem tcp_bad_header_closes_witness:
  "\<exists>sv' w1. HandleNext_tcp noTables wireNet 8 demoTcp (wire [0, 9, 0, 0, 0, 0, 1]) =
      Some (Ret (sv', listenerClose wireNet () w1, Some (ErrInvalidMBAPLength 0)))"
  using tcp_bad_header_closes [OF wireNet_reads demoTcp_connected, of "()" "wire [0, 9, 0, 0, 0, 0, 1]"
      "\<lparr>Transaction = 9, Protocol = 0, Length = 0, Unit = 1\<rparr>" "[]" 8 "ErrInvalidMBAPLength 0" noTables]
  by (auto simp: header_bytes_def hi8_def lo8_def demoTcp_def)

text \<open>
  C40. A read of 124 or 125 registers, which the protocol allows, ends a TCP connection: the response does not
  fit the send buffer behind the header, so \<open>HandleNext\<close> closes the connection with the marshalling error and
  writes nothing.
\<close>

theorem tcp_long_read_closes:
  assumes "conn_reads N c inb out" and "connected sv c dm" and "dm_ok dm" and l: "listener (tcp_state sv) = Some l"
    and fc: "fc = FCReadHoldingRegisters \<or> fc = FCReadInputRegisters" and q: "124 \<le> unat q" "unat a + unat q \<le> 125"
    and "pdu = [fc, hi8 a, lo8 a, hi8 q, lo8 q]" and "inb w = header_bytes (requestHeader tid unit' pdu) @ pdu @ rest" and "7 < fuel"
  shows "\<exists>sv' w1. HandleNext_tcp I N fuel sv w = Some (Ret (sv', listenerClose N l w1, Some ErrResponseTooLargeTx)) \<and>
    Server_IsConnected sv' = Ret False \<and> inb w1 = rest \<and> out w1 = out w"
proof -
  have "length pdu \<le> 256" "length pdu < fuel" using assms(8,10) by simp_all
  with HandleNext_request [OF assms(1,2,9), of fuel I] assms(10) obtain sv1 w1 where
    r: "HandleNext_tcp I N fuel sv w = Some (answerRequest I N sv1 w1 (requestHeader tid unit' pdu) (word_of_nat (length pdu)))"
      "connected sv1 c dm" "take (length pdu) (tcp_rxbuf sv1) = pdu" "inb w1 = rest" "out w1 = out w" "listener (tcp_state sv1) = Some l"
    using l by auto
  have len: "length (tcp_rxbuf sv1) = 256" "length (tcp_txBuf sv1) = 256" using r(2) by (simp_all add: connected_def)
  have b: "0 < unat q" "2 + 2 * unat q \<le> length (drop 0 (tcp_rxbuf sv1))" "length (drop 7 (tcp_txBuf sv1)) < 2 + 2 * unat q"
    using q len by simp_all
  note put = putresponse_registers_too_large [OF assms(3) fc b(1) q(2) b(2,3), of I]
  have pl: "length pdu \<le> 256" "length (drop 7 (tcp_txBuf sv1)) = 249"
      "length (overwrite 2 (be_bytes (map (\<lambda>k. regs_of fc dm (uint a + int k)) [0..<unat q])) (drop 0 (tcp_rxbuf sv1))) = 256 - 0"
    using assms(8) len b by simp_all
  from answerRequest_decoded [OF r(2,3) pl(1) read_pdu [OF fc, of a q, folded assms(8)] _ put pl(2,3), of N w1 "requestHeader tid unit' pdu"]
  obtain sv2 where s2: "answerRequest I N sv1 w1 (requestHeader tid unit' pdu) (word_of_nat (length pdu)) =
        closeWith N sv2 w1 (Some ErrResponseTooLargeTx)"
      "connected sv2 c dm" "tcp_state sv2 = (tcp_state sv1)\<lparr>st_data := Some dm\<rparr>"
    by auto
  then have "closeWith N sv2 w1 (Some ErrResponseTooLargeTx) =
      Ret (sv2\<lparr>tcp_state := (tcp_state sv2)\<lparr>st_closeErr := Some ErrResponseTooLargeTx\<rparr>\<rparr>, listenerClose N l w1, Some ErrResponseTooLargeTx)"
    using r(6) by (simp add: closeWith_def CloseConn_def connected_def)
  then show ?thesis
    using r s2 by (auto simp: Server_IsConnected_def serverState_IsConnected_def serverState_Err_def connected_def)
qed

theorem tcp_long_read_closes_witness:
  "\<exists>sv' w1. HandleNext_tcp noTables wireNet 8 demoTcp (wire ([0, 9, 0, 0, 0, 6, 1] @ [3, hi8 0, lo8 0, hi8 125, lo8 125])) =
      Some (Ret (sv', listenerClose wireNet () w1, Some ErrResponseTooLargeTx))"
  using tcp_long_read_closes [OF wireNet_reads demoTcp_connected _ _ _ _ _ refl, of "()" FCReadHoldingRegisters 125 0
      "wire ([0, 9, 0, 0, 0, 6, 1] @ [3, hi8 0, lo8 0, hi8 125, lo8 125])" 9 1 "[]" 8 noTables]
  by (auto simp: header_bytes_def hi8_def lo8_def demoTcp_def)

end
