(* ===== verification/Tcp_Lifecycle.thy ===== *)
theory Tcp_Lifecycle
  imports Tcp_Session
begin

text \<open>
  The life of a TCP server: a step relation whose steps are the calls of \<open>Accept\<close> and \<open>HandleNext\<close> that return,
  with any behaviour of the network between them, and the invariant of every state that can be reached from
  \<open>NewServer\<close>.
\<close>

section \<open>Steps and the invariant\<close>

inductive tcp_step :: "'s DataModelImpl \<Rightarrow> ('a, 'l, 'c, 'w) Net \<Rightarrow> ('s, 'a, 'l, 'c) Server_tcp \<times> 'w \<Rightarrow> ('s, 'a, 'l, 'c) Server_tcp \<times> 'w \<Rightarrow> bool"
  for I N where
  accept: "Accept N sv w = Ret (sv', w', err) \<Longrightarrow> tcp_step I N (sv, w) (sv', w')"
| handle: "HandleNext_tcp I N fuel sv w = Some (Ret (sv', w', err)) \<Longrightarrow> tcp_step I N (sv, w) (sv', w')"
| network: "tcp_step I N (sv, w) (sv, w')"

inductive tcp_reachable :: "'s DataModelImpl \<Rightarrow> ('a, 'l, 'c, 'w) Net \<Rightarrow> ('s, 'a, 'l, 'c) Server_tcp \<times> 'w \<Rightarrow> bool"
  for I N where
  start: "NewServer_tcp N cfg = Inr sv \<Longrightarrow> tcp_DataModel cfg = None \<or> tcp_DataModel cfg = Some dm \<and> dm_ok dm \<Longrightarrow> tcp_reachable I N (sv, w)"
| step: "tcp_reachable I N s \<Longrightarrow> tcp_step I N s s' \<Longrightarrow> tcp_reachable I N s'"

text \<open>
  The mutex is free, the buffers keep their size, the data model keeps its invariant, and a server that has not
  recorded an error has a listener and a connection.
\<close>

definition tcp_inv :: "('s, 'a, 'l, 'c) Server_tcp \<Rightarrow> bool" where
  "tcp_inv sv \<longleftrightarrow> \<not> st_mu (tcp_state sv) \<and> length (tcp_txBuf sv) = 256 \<and> length (tcp_rxbuf sv) = 256 \<and>
     (\<exists>dm. st_data (tcp_state sv) = Some dm \<and> dm_ok dm) \<and>
     (st_closeErr (tcp_state sv) = None \<longrightarrow> listener (tcp_state sv) \<noteq> None \<and> conn (tcp_state sv) \<noteq> None)"

text \<open>What \<open>io.Reader\<close> documents, for every connection.\<close>

definition conn_contract :: "('a, 'l, 'c, 'w) Net \<Rightarrow> bool" where
  "conn_contract N \<longleftrightarrow> (\<forall>c w p w' p' n e. connRead N c w p = Ret (w', p', n, e) \<longrightarrow> length p' = length p \<and> 0 \<le> n \<and> n \<le> int (length p))"

lemma conn_contract_read: "conn_contract N \<Longrightarrow> connRead N c w p = Ret (w', p', n, e) \<Longrightarrow> length p' = length p \<and> 0 \<le> n \<and> n \<le> int (length p)"
  unfolding conn_contract_def by blast

lemma readConn_length: "conn_contract N \<Longrightarrow> readConn N c w p = Ret (w', p', n, e) \<Longrightarrow> length p' = length p \<and> 0 \<le> n \<and> n \<le> int (length p)"
  by (cases c) (auto simp: readConn_def dest: conn_contract_read)

lemma ReadFull_length:
  assumes "conn_contract N"
  shows "ReadFull N c fuel w acc rest = Some (Ret (w', p, e)) \<Longrightarrow> length p = length acc + length rest"
proof (induction fuel arbitrary: w acc rest)
  case 0
  then show ?case by simp
next
  case (Suc fuel)
  show ?case
  proof (cases "rest = []")
    case True
    then show ?thesis using Suc.prems by simp
  next
    case False
    with Suc.prems obtain w1 p1 n err where rd: "readConn N c w rest = Ret (w1, p1, n, err)"
      by (auto simp: Let_def split: outcome.splits)
    from readConn_length [OF assms this] have "length (acc @ take (nat n) p1) + length (drop (nat n) p1) = length acc + length rest" by auto
    then show ?thesis using Suc.prems Suc.IH [of w1 "acc @ take (nat n) p1" "drop (nat n) p1"] rd False
      by (auto simp: Let_def split: if_splits)
  qed
qed

section \<open>Every operation keeps the invariant\<close>

lemma closeWith_inv: "tcp_inv sv \<Longrightarrow> closeWith N sv w err = Ret (sv', w', e) \<Longrightarrow> tcp_inv sv'"
  by (auto simp: closeWith_def CloseConn_def tcp_inv_def andThen_eq_Ret split: if_splits)

lemma Put_length: "applicationHeader_Put ap b = Ret (b', e) \<Longrightarrow> length b' = length b"
  by (auto simp: applicationHeader_Put_def andThen_eq_Ret PutUint16_def store_def split: if_splits)

lemma handleException_inv:
  assumes "tcp_inv sv" and r: "handleException_tcp N sv w exc fc = Ret (sv', w', e)"
  shows "tcp_inv sv'"
proof -
  from r obtain h h' e1 dst w2 e2 where
    h: "sub (tcp_txBuf sv) 0 (int mbapSize) = Ret h" "applicationHeader_Put (lastMBAP (tcp_state sv)) h = Ret (h', e1)"
      "Exception_PutResponse exc (drop mbapSize (tcp_txBuf sv)) fc = Ret dst"
    and rest: "closeWith N (sv\<lparr>tcp_txBuf := h' @ dst\<rparr>) w2 e2 = Ret (sv', w', e) \<or> sv' = sv\<lparr>tcp_txBuf := h' @ dst\<rparr>"
    by (auto simp: handleException_tcp_def andThen_eq_Ret Let_def split: if_splits) blast
  have "length dst = length (drop mbapSize (tcp_txBuf sv))"
    using h(3) by (auto simp: Exception_PutResponse_def andThen_eq_Ret store_def split: if_splits)
  moreover have "length h' = 7" using Put_length [OF h(2)] h(1) by (auto simp: sub_eq_Ret mbapSize_def)
  ultimately have "tcp_inv (sv\<lparr>tcp_txBuf := h' @ dst\<rparr>)" using assms(1) by (simp add: tcp_inv_def mbapSize_def)
  with rest show ?thesis by (metis closeWith_inv)
qed

lemma sendResponse_inv:
  assumes "tcp_inv sv" and r: "sendResponse N sv w mbap plen = Ret (sv', w', e)"
  shows "tcp_inv sv'"
proof -
  from r obtain h h' e1 w2 e2 where
    h: "sub (tcp_txBuf sv) 0 (int mbapSize) = Ret h" "applicationHeader_Put (mbap\<lparr>Length := word_of_nat (plen + 1)\<rparr>) h = Ret (h', e1)"
    and rest: "closeWith N (sv\<lparr>tcp_txBuf := h' @ drop mbapSize (tcp_txBuf sv)\<rparr>) w2 e2 = Ret (sv', w', e) \<or>
      sv' = sv\<lparr>tcp_txBuf := h' @ drop mbapSize (tcp_txBuf sv)\<rparr>"
    by (auto simp: sendResponse_def andThen_eq_Ret Let_def split: if_splits) blast
  have "length h' = 7" using Put_length [OF h(2)] h(1) by (auto simp: sub_eq_Ret mbapSize_def)
  then have "tcp_inv (sv\<lparr>tcp_txBuf := h' @ drop mbapSize (tcp_txBuf sv)\<rparr>)" using assms(1) by (simp add: tcp_inv_def mbapSize_def)
  with rest show ?thesis by (metis closeWith_inv)
qed

lemma respond_inv:
  assumes inv: "tcp_inv sv" and r: "respond I N sv w mbap fc req off = Ret (sv', w', e)"
  shows "tcp_inv sv'"
proof -
  obtain dm where dm: "st_data (tcp_state sv) = Some dm" "dm_ok dm" using inv by (auto simp: tcp_inv_def)
  have len: "length (tcp_txBuf sv) = 256" "length (tcp_rxbuf sv) = 256" using inv by (simp_all add: tcp_inv_def)
  from r dm obtain dm' dst d plen err where off: "off \<le> length (tcp_rxbuf sv)"
    and put: "PutResponse I req dm (drop mbapSize (tcp_txBuf sv)) (drop off (tcp_rxbuf sv)) = Ret (dm', dst, d, plen, err)"
    by (auto simp: respond_def andThen_eq_Ret split: if_splits)
  let ?sv = "sv\<lparr>tcp_txBuf := take mbapSize (tcp_txBuf sv) @ dst, tcp_rxbuf := overwrite off d (tcp_rxbuf sv),
      tcp_state := (tcp_state sv)\<lparr>st_data := Some dm'\<rparr>\<rparr>"
  have "dm_ok dm' \<and> length dst = 249 \<and> length d = 256 - off" using PutResponse_keeps [OF dm(2) put] len by (simp add: mbapSize_def)
  then have "tcp_inv ?sv" using inv off len by (simp add: tcp_inv_def mbapSize_def)
  moreover have "sendResponse N ?sv w mbap plen = Ret (sv', w', e) \<or> (\<exists>exc. handleException_tcp N ?sv w exc fc = Ret (sv', w', e)) \<or>
      closeWith N ?sv w err = Ret (sv', w', e)"
    using r dm(1) off by (auto simp: respond_def put Let_def split: option.splits goerror.splits)
  ultimately show ?thesis by (metis sendResponse_inv handleException_inv closeWith_inv)
qed

lemma answerRequest_inv:
  assumes inv: "tcp_inv sv" and r: "answerRequest I N sv w mbap rem = Ret (sv', w', e)"
  shows "tcp_inv sv'"
proof -
  from r obtain pdu where pdu: "sub (tcp_rxbuf sv) 0 (uint rem) = Ret pdu" by (auto simp: answerRequest_def andThen_eq_Ret)
  obtain fc n err where inf: "InferRequestPacketLength pdu = (fc, n, err)" by (cases "InferRequestPacketLength pdu")
  show ?thesis
  proof (cases "\<exists>exc. err = Some (ExceptionErr exc)")
    case True
    then show ?thesis using r handleException_inv [OF inv] by (auto simp: answerRequest_def pdu inf)
  next
    case False
    then have "answerRequest I N sv w mbap rem =
        andThen (DecodeRequest pdu) (\<lambda>(req, off, err). if err \<noteq> None then closeWith N sv w err else respond I N sv w mbap fc req off)"
      by (auto simp: answerRequest_def pdu inf split: option.splits goerror.splits)
    with r obtain req off err where "(if err \<noteq> None then closeWith N sv w err else respond I N sv w mbap fc req off) = Ret (sv', w', e)"
      by (auto simp only: andThen_eq_Ret prod.case split_paired_Ex)
    then show ?thesis using closeWith_inv [OF inv] respond_inv [OF inv] by (auto split: if_splits)
  qed
qed

lemma handleHeader_inv:
  assumes C: "conn_contract N" and inv: "tcp_inv sv" and r: "handleHeader I N fuel sv w = Some (Ret (sv', w', e))"
  shows "tcp_inv sv'"
proof -
  have len: "length (tcp_rxbuf sv) = 256" and mu: "\<not> st_mu (tcp_state sv)" using inv by (simp_all add: tcp_inv_def)
  from r obtain mbap err where dec: "andThen (sub (tcp_rxbuf sv) 0 (int mbapSize)) decodeMBAP = Ret (mbap, err)"
    by (auto simp: handleHeader_def split: outcome.splits)
  let ?sv = "sv\<lparr>tcp_state := (tcp_state sv)\<lparr>lastMBAP := mbap\<rparr>\<rparr>" and ?rem = "Length mbap - 1"
  have inv': "tcp_inv ?sv" using inv by (simp add: tcp_inv_def)
  show ?thesis
  proof (cases "err = None \<and> uint ?rem \<le> 256")
    case False
    then show ?thesis
      using r closeWith_inv [OF inv] closeWith_inv [OF inv'] mu len unfolding handleHeader_def dec
      by (auto simp: Let_def split: if_splits)
  next
    case True
    let ?sv1 = "\<lambda>p. ?sv\<lparr>tcp_rxbuf := p @ drop (unat ?rem) (tcp_rxbuf sv)\<rparr>"
    have "handleHeader I N fuel sv w =
        map_option (\<lambda>r. andThen r (\<lambda>(w, p, err). if err \<noteq> None then closeWith N (?sv1 p) w err else answerRequest I N (?sv1 p) w mbap ?rem))
          (ReadFull N (conn (tcp_state sv)) fuel w [] (take (unat ?rem) (tcp_rxbuf sv)))"
      using True mu len unfolding handleHeader_def dec by (simp add: Let_def)
    with r obtain w1 p err where rd: "ReadFull N (conn (tcp_state sv)) fuel w [] (take (unat ?rem) (tcp_rxbuf sv)) = Some (Ret (w1, p, err))"
      and rest: "closeWith N (?sv1 p) w1 err = Ret (sv', w', e) \<or> answerRequest I N (?sv1 p) w1 mbap ?rem = Ret (sv', w', e)"
      by (auto simp: andThen_eq_Ret split: if_splits)
    have "length p = min 256 (unat ?rem)" using ReadFull_length [OF C rd] len by simp
    moreover have "int (unat ?rem) \<le> int 256" using True by (simp only: uint_nat of_nat_numeral)
    then have "unat ?rem \<le> 256" by (simp only: of_nat_le_iff)
    ultimately have "tcp_inv (?sv1 p)" using inv len by (simp add: tcp_inv_def)
    then show ?thesis using rest by (metis closeWith_inv answerRequest_inv)
  qed
qed

lemma HandleNext_inv:
  assumes C: "conn_contract N" and inv: "tcp_inv sv" and r: "HandleNext_tcp I N fuel sv w = Some (Ret (sv', w', e))"
  shows "tcp_inv sv'"
proof (cases "st_closeErr (tcp_state sv)")
  case None
  have st: "\<not> st_mu (tcp_state sv)" "length (tcp_rxbuf sv) = 256" using inv by (simp_all add: tcp_inv_def)
  with r None obtain w1 p err where rd: "ReadFull N (conn (tcp_state sv)) fuel w [] (take mbapSize (tcp_rxbuf sv)) = Some (Ret (w1, p, err))"
    by (auto simp: HandleNext_tcp_def Server_Err_def serverState_Err_def split: option.splits outcome.splits)
  have "length p = 7" using ReadFull_length [OF C rd] st by (simp add: mbapSize_def)
  then have inv': "tcp_inv (sv\<lparr>tcp_rxbuf := p @ drop mbapSize (tcp_rxbuf sv)\<rparr>)" using inv by (simp add: tcp_inv_def mbapSize_def)
  then show ?thesis
    using r None st closeWith_inv [OF inv'] handleHeader_inv [OF C inv']
    by (auto simp: HandleNext_tcp_def Server_Err_def serverState_Err_def rd Let_def split: if_splits)
next
  case (Some err)
  then show ?thesis using r inv by (auto simp: HandleNext_tcp_def Server_Err_def serverState_Err_def tcp_inv_def)
qed

lemma Accept_Ret:
  assumes "Accept N sv w = Ret (sv', w', e)"
  shows "sv' = sv \<and> e \<noteq> None \<or>
    (\<exists>l c. sv' = sv\<lparr>tcp_state := (tcp_state sv)\<lparr>st_closeErr := None, listener := Some l, conn := Some c\<rparr>\<rparr> \<and> e = None)"
proof (cases "st_closeErr (tcp_state sv) = None")
  case True
  then show ?thesis using assms by (auto simp: Accept_def serverState_IsConnected_def serverState_Err_def split: if_splits)
next
  case False
  obtain w1 l where listen: "listenTCP N (tcp_address sv) w = (w1, l)" by (cases "listenTCP N (tcp_address sv) w")
  show ?thesis
  proof (cases l)
    case (Inl err)
    then show ?thesis using assms False listen by (auto simp: Accept_def serverState_IsConnected_def serverState_Err_def split: if_splits)
  next
    case (Inr l')
    let ?w = "if tcpTimeout sv > 0 then (case netNow N w1 of (w, now) \<Rightarrow> listenerSetDeadline N l' w (Some (now + tcpTimeout sv))) else w1"
    have mu: "\<not> st_mu (tcp_state sv)"
      using assms by (auto simp: Accept_def serverState_IsConnected_def serverState_Err_def split: if_splits)
    have "andThen (acceptTCP N l' ?w) (\<lambda>(w, r). case r of Inl err \<Rightarrow> Ret (sv, listenerClose N l' w, Some err)
        | Inr c \<Rightarrow> Ret (sv\<lparr>tcp_state := (tcp_state sv)\<lparr>st_closeErr := None, listener := Some l', conn := Some c\<rparr>\<rparr>,
            listenerSetDeadline N l' w None, None)) = Ret (sv', w', e)"
      using assms False listen Inr mu by (simp add: Accept_def serverState_IsConnected_def serverState_Err_def)
    then obtain w2 r where "(case r of Inl err \<Rightarrow> Ret (sv, listenerClose N l' w2, Some err)
        | Inr c \<Rightarrow> Ret (sv\<lparr>tcp_state := (tcp_state sv)\<lparr>st_closeErr := None, listener := Some l', conn := Some c\<rparr>\<rparr>,
            listenerSetDeadline N l' w2 None, None)) = Ret (sv', w', e)"
      by (auto simp only: andThen_eq_Ret prod.case split_paired_Ex)
    then show ?thesis by (cases r) (auto split: if_splits)
  qed
qed

lemma Accept_inv: "tcp_inv sv \<Longrightarrow> Accept N sv w = Ret (sv', w', e) \<Longrightarrow> tcp_inv sv'"
  by (drule Accept_Ret) (auto simp: tcp_inv_def)

lemma NewServer_inv:
  assumes "NewServer_tcp N cfg = Inr sv" and "tcp_DataModel cfg = None \<or> tcp_DataModel cfg = Some dm \<and> dm_ok dm"
  shows "tcp_inv sv"
  using assms by (auto simp: NewServer_tcp_def tcp_inv_def Let_def split: sum.splits)

lemma step_inv:
  assumes "conn_contract N" and "tcp_step I N s s'" and "tcp_inv (fst s)"
  shows "tcp_inv (fst s')"
  using assms(2,3) by cases (auto dest: Accept_inv HandleNext_inv [OF assms(1)])

lemma reachable_inv:
  assumes "conn_contract N" and "tcp_reachable I N s"
  shows "tcp_inv (fst s)"
  using assms(2) by induction (auto dest: NewServer_inv step_inv [OF assms(1)])

section \<open>Properties\<close>

text \<open>
  C5. In every state that a server reaches through \<open>Accept\<close> and \<open>HandleNext\<close>, whatever the network does, the
  mutex is free, both buffers have 256 bytes and the data model keeps its invariant.  A server without a recorded
  error has a listener and a connection and refuses a second \<open>Accept\<close> without touching the network, so it
  never has more than one connection; a server with a recorded error refuses \<open>HandleNext\<close> without
  touching the network.
\<close>

theorem tcp_reachable_invariant:
  assumes "conn_contract N" and "tcp_reachable I N (sv, w)"
  shows "tcp_inv sv \<and>
    (st_closeErr (tcp_state sv) = None \<longrightarrow> Server_IsConnected sv = Ret True \<and> Accept N sv w' = Ret (sv, w', Some ErrAlreadyConnected)) \<and>
    (\<forall>e. st_closeErr (tcp_state sv) = Some e \<longrightarrow> Server_IsConnected sv = Ret False \<and>
      HandleNext_tcp I N fuel sv w' = Some (Ret (sv, w', Some (ErrDisconnected e))))"
proof -
  have "tcp_inv sv" using reachable_inv [OF assms] by simp
  then show ?thesis
    by (auto simp: tcp_inv_def Accept_def HandleNext_tcp_def Server_IsConnected_def Server_Err_def serverState_IsConnected_def serverState_Err_def)
qed

theorem tcp_reachable_invariant_witness:
  "\<exists>sv w. Accept wireNet (demoTcp\<lparr>tcp_state := (tcp_state demoTcp)\<lparr>listener := None, conn := None, st_closeErr := Some ErrNotYetConnected\<rparr>\<rparr>)
      (wire []) = Ret (sv, w, None) \<and> tcp_inv sv \<and> Accept wireNet sv w = Ret (sv, w, Some ErrAlreadyConnected)"
proof -
  let ?sv0 = "demoTcp\<lparr>tcp_state := (tcp_state demoTcp)\<lparr>listener := None, conn := None, st_closeErr := Some ErrNotYetConnected\<rparr>\<rparr>"
  let ?cfg = "\<lparr>tcp_Address = ''localhost:502'', ConnectTimeout = 0, tcp_DataModel = None\<rparr> :: unit ServerConfig_tcp"
  have "NewServer_tcp wireNet ?cfg = Inr ?sv0" by (simp add: NewServer_tcp_def wireNet_def demoTcp_def)
  from tcp_reachable.start [OF this, where I = noTables and w = "wire []"] have start: "tcp_reachable noTables wireNet (?sv0, wire [])" by simp
  obtain sv w where acc: "Accept wireNet ?sv0 (wire []) = Ret (sv, w, None)" "st_closeErr (tcp_state sv) = None"
    by (auto simp: Accept_def serverState_IsConnected_def serverState_Err_def demoTcp_def wireNet_def)
  have "conn_contract wireNet" by (auto simp: conn_contract_def wireNet_def Suc_le_eq split: list.splits if_splits)
  from tcp_reachable_invariant [OF this tcp_reachable.step [OF start tcp_step.accept [OF acc(1)]]] acc show ?thesis by blast
qed

end
