(* ===== verification/Spec2Isabelle.thy ===== *)
theory Spec2Isabelle
  imports Interpreter Crc_Polynomial Rtu_System Rtu_Transaction Tcp_Lifecycle
begin

text \<open>
  A verification development for peamodbus, a Go implementation of the Modbus protocol.

  The program.  Package \<open>peamodbus\<close> (\<open>src/peamodbus.go\<close>, \<open>src/tx.go\<close>, \<open>src/definitions.go\<close>) has the data model of a device
  (coils, discrete inputs, input and holding registers), the access to it from protocol data, an interpreter that
  stores numbers and byte strings in registers, and the marshalling and parsing of protocol data units.  Package
  \<open>modbusrtu\<close> sends them over a serial line with an address and a CRC: a receive buffer (\<open>rtustate.go\<close>), a client
  (\<open>client.go\<close>) and a server (\<open>server.go\<close>).  Package \<open>modbustcp\<close> has a server that sends them over a TCP
  connection behind an MBAP header (\<open>server.go\<close>, \<open>tcpstate.go\<close>).  A server decodes a request, lets
  \<open>Request.PutResponse\<close> read or write the data model and marshal the answer, and frames it; the client marshals a
  request, waits for a matching frame and decodes it.

  Conventions.  A call that may panic or wait for a mutex has a result of type \<open>outcome\<close>; errors are values of
  \<open>goerror\<close>, \<open>None\<close> for nil.  Fixed-width integers are words, \<open>int\<close> values are integers, slices are lists with the
  checks of the run time written out (\<open>sub\<close>, \<open>index\<close>, \<open>store\<close>), and where the code slices up to the capacity the list
  reaches to the capacity.  A slice of the receive buffer that is returned is its offset and length, so that what is
  later written to the buffer is seen through it.  State is passed explicitly.  Mutexes are flags: locking a held
  mutex is the outcome \<open>Blocks\<close>.

  The theories, in the order in which they build on each other.

  \<open>Prelude\<close>: outcomes, slices, byte order and the lemmas on lists and words that the components share.
  \<open>Definitions\<close>: \<open>definitions.go\<close>, function codes and exceptions, and the error values of the repository.
  \<open>Data_Model\<close>: the interface \<open>DataModel\<close> with its dynamic types \<open>BlockedModel\<close>, \<open>lockedDataModel\<close> and foreign
  implementations (a parameter), \<open>lockDataModel\<close>, and the abstract bank of four tables.  The locale \<open>data_table\<close> is the
  contract of a table; the four tables are interpreted in it, and getters and setters refine the bank.
  \<open>Model_Access\<close>: \<open>readFromModel\<close> and \<open>writeToModel\<close>, loops on \<open>uint16\<close> counters with their termination, and what they read,
  write and refuse for every table, with the wrap-around of the 16-bit end address.
  \<open>Interpreter\<close>: \<open>DataInterpreter\<close>; floats are their bit patterns.  The locale \<open>register_table\<close> holds the round trips of numbers,
  bytes and slices, interpreted for holding and input registers.
  \<open>Tx\<close>: length inference, decoding and marshalling of \<open>tx.go\<close>; what each method writes, and that decoding inverts it.
  \<open>Put_Response\<close>: \<open>Request.PutResponse\<close> and whole exchanges; \<open>Response_Invariant\<close>: what it keeps for every request.
  \<open>Crc\<close>: \<open>generateCRC\<close> and \<open>generateLRC\<close>, and the residue of a packet with its CRC; \<open>Crc_Polynomial\<close>: the CRC is the
  remainder of polynomial division by the generator of the standard, and detects every burst of up to sixteen bits.
  \<open>Rtu_State\<close>: \<open>connState\<close> of \<open>rtustate.go\<close>, with \<open>read\<close> and \<open>TryRx\<close>, the invariant \<open>rx_ok\<close> of the receive buffer and what a
  call returns; \<open>Rtu_Line\<close>: receiving from a line that delivers; \<open>Rtu_Receive\<close>: soundness of received packets,
  for responses the absence of panics on a port that reports errors only when it has read nothing and the panic that
  bytes with an error lead to, and the panic and the lasting failure that requests can cause.
  \<open>Rtu_Server\<close>: the RTU server.  \<open>Rtu_Client\<close>: the RTU client; \<open>Rtu_Transaction\<close>: its behaviour with frames that do not
  answer it, with its deadline, and with counts out of range.
  \<open>Rtu_Device\<close>: the locale \<open>rtu_device\<close>, the contract a client has with a device on its line, and the exchanges of the client in
  it; \<open>Rtu_System\<close>: the server behind a port is interpreted as such a device, which gives the properties of client
  and server together.
  \<open>Mbap\<close>: the MBAP header.  \<open>Tcp_Server\<close>: \<open>serverState\<close> and the TCP server; \<open>Tcp_Session\<close>: a server on an established
  connection; \<open>Tcp_Lifecycle\<close>: the step relation of \<open>Accept\<close> and \<open>HandleNext\<close> and the invariant of reachable states.

  The environment.  The serial port and the clock are the record \<open>World\<close>, the network the record \<open>Net\<close>; their operations are
  arguments of the definitions.  What the code relies on is a named hypothesis: \<open>reader_contract\<close> and \<open>conn_contract\<close> are
  the documented contract of \<open>io.Reader\<close>, \<open>line_reads\<close> and \<open>conn_reads\<close> a line that delivers the bytes sent to it (the TCP
  connection in pieces of any size), \<open>line_writes\<close> and \<open>conn_writes\<close> writes that succeed, \<open>ticking\<close> a clock that
  never goes back and shows the same time in at most \<open>K\<close> readings in a row, \<open>responsive\<close> a port with the contract of
  \<open>io.Reader\<close> whose operations return, and \<open>quiet_reader\<close>, which \<open>io.Reader\<close> does not promise, a port that reports an error
  only when it has read nothing; it is a hypothesis of the absence of panics only.  Each has a concrete instance: \<open>lineWorld\<close>, \<open>busWorld\<close>,
  \<open>silentWorld\<close>, \<open>wireNet\<close>.

  Fuel.  Three loops may run forever: the receive loop of the RTU server, the receive loop of the client, and
  \<open>io.ReadFull\<close>.  They take fuel and give \<open>None\<close> when it runs out.  Two turns are enough for a frame on a line that
  delivers, \<open>K + 1\<close> turns for each nanosecond of timeout for a client with a timeout, and one turn per byte and one more
  for \<open>io.ReadFull\<close>; the properties state the fuel and that the call returns with it.  The other loops are recursive
  with termination proofs.

  Not modelled.  The output of the loggers (the slices that the log arguments take are modelled, since they can
  panic), the texts of errors other than those of exceptions and function codes, \<open>netip.ParseAddrPort\<close> and package \<open>net\<close>,
  which are parameters, and the example programs under \<open>src/examples\<close>, which only call the library and print.
  Goroutines that share a server, a client or a data model are modelled by the state of their mutexes between calls, not
  by interleavings of the statements inside a critical section.
\<close>

end
